theory Spec2Isabelle
  imports Complex_Main
begin

section \<open>Python strings, truthiness and dictionaries\<close>

text \<open>
  Strings are modelled as \<^typ>\<open>string\<close> and taken to be ASCII text: \<open>str.lower()\<close> maps
  the letters \<open>A\<close>..\<open>Z\<close> to \<open>a\<close>..\<open>z\<close> and leaves every other character alone.
\<close>

definition lower_char :: "char \<Rightarrow> char" where
  "lower_char c =
     (case map_of (zip ''ABCDEFGHIJKLMNOPQRSTUVWXYZ'' ''abcdefghijklmnopqrstuvwxyz'') c of
        None \<Rightarrow> c
      | Some d \<Rightarrow> d)"

definition lower :: "string \<Rightarrow> string" where
  "lower s = map lower_char s"

text \<open>\<open>s.startswith(p)\<close>\<close>

fun startswith :: "string \<Rightarrow> string \<Rightarrow> bool" where
  "startswith s [] = True"
| "startswith [] (p # ps) = False"
| "startswith (c # cs) (p # ps) = (c = p \<and> startswith cs ps)"

text \<open>\<open>sub in s\<close> for two strings: \<open>sub\<close> occurs in \<open>s\<close> as a contiguous block.\<close>

fun str_in :: "string \<Rightarrow> string \<Rightarrow> bool" where
  "str_in sub [] = (sub = [])"
| "str_in sub (c # cs) = (startswith (c # cs) sub \<or> str_in sub cs)"

text \<open>\<open>s.endswith(e)\<close>\<close>

definition endswith :: "string \<Rightarrow> string \<Rightarrow> bool" where
  "endswith s e = startswith (rev s) (rev e)"

text \<open>
  A value read with \<open>d.get(key)\<close> is \<open>None\<close> or a string. \<open>x or ''\<close> is \<open>or_empty\<close>;
  the truth value Python gives such a value is \<open>truthy\<close> (\<open>None\<close> and \<open>''\<close> are false).
\<close>

fun or_empty :: "string option \<Rightarrow> string" where
  "or_empty None = []"
| "or_empty (Some s) = s"

fun truthy :: "string option \<Rightarrow> bool" where
  "truthy None = False"
| "truthy (Some s) = (s \<noteq> [])"

text \<open>\<open>a or b\<close> on two such values.\<close>

definition py_or :: "string option \<Rightarrow> string option \<Rightarrow> string option" where
  "py_or a b = (if truthy a then a else b)"

text \<open>\<open>not x\<close>\<close>

definition falsy :: "string option \<Rightarrow> bool" where
  "falsy x = (\<not> truthy x)"

text \<open>\<open>os.path.basename(p)\<close>: what follows the last \<open>/\<close>.\<close>

definition basename :: "string \<Rightarrow> string" where
  "basename p = rev (takeWhile (\<lambda>c. c \<noteq> CHR ''/'') (rev p))"

text \<open>
  A Python \<open>dict\<close> keeps its keys in insertion order; assigning to a key that is already
  there replaces the value in place.
\<close>

fun dict_set :: "'k \<Rightarrow> 'v \<Rightarrow> ('k \<times> 'v) list \<Rightarrow> ('k \<times> 'v) list" where
  "dict_set k v [] = [(k, v)]"
| "dict_set k v ((k', v') # d) =
     (if k = k' then (k, v) # d else (k', v') # dict_set k v d)"

definition dict_get :: "('k \<times> 'v) list \<Rightarrow> 'k \<Rightarrow> 'v option" where
  "dict_get d k = map_of d k"

section \<open>Tool selection: \<open>find_tool_by_keywords\<close>\<close>

text \<open>
  An entry of the tool catalog as \<open>gi.tools.get_tools()\<close> lists it. The code reads the
  identifier with \<open>t.get('id','')\<close> and guards the display name with \<open>name or ''\<close>.
\<close>

record tool =
  t_id :: string
  t_name :: "string option"

text \<open>The dictionary \<open>tool_map\<close> of lines 57 to 61: identifier to display name.\<close>

definition tool_map :: "tool list \<Rightarrow> (string \<times> string option) list" where
  "tool_map tools = foldl (\<lambda>d t. dict_set (t_id t) (t_name t) d) [] tools"

text \<open>The test of line 64.\<close>

definition kw_hit :: "string \<Rightarrow> string \<Rightarrow> string option \<Rightarrow> bool" where
  "kw_hit kw tid name =
     (str_in (lower kw) (lower tid) \<or> str_in (lower kw) (lower (or_empty name)))"

text \<open>The inner loop over \<open>tool_map.items()\<close> for one keyword.\<close>

fun scan_tools :: "string \<Rightarrow> (string \<times> string option) list \<Rightarrow> string option" where
  "scan_tools kw [] = None"
| "scan_tools kw ((tid, name) # rest) =
     (if kw_hit kw tid name then Some tid else scan_tools kw rest)"

text \<open>The outer loop over the keywords; \<open>None\<close> when it runs to its end.\<close>

fun scan_keywords :: "string list \<Rightarrow> (string \<times> string option) list \<Rightarrow> string option" where
  "scan_keywords [] tm = None"
| "scan_keywords (kw # kws) tm =
     (case scan_tools kw tm of
        Some tid \<Rightarrow> Some tid
      | None \<Rightarrow> scan_keywords kws tm)"

definition find_tool_by_keywords :: "tool list \<Rightarrow> string list \<Rightarrow> string option" where
  "find_tool_by_keywords tools keywords = scan_keywords keywords (tool_map tools)"

text \<open>A keyword hits a catalog entry.\<close>

definition tool_hit :: "string \<Rightarrow> tool \<Rightarrow> bool" where
  "tool_hit kw t = kw_hit kw (t_id t) (t_name t)"

text \<open>
  A catalog whose identifiers and display names are written in other cases than the
  keywords, and a catalog that lists the identifier \<open>x\<close> twice.
\<close>

definition mixed_case_catalog :: "tool list" where
  "mixed_case_catalog =
     [\<lparr>t_id = ''toolshed/TRINITY/2.9'', t_name = Some ''Trinity''\<rparr>,
      \<lparr>t_id = ''toolshed/spades/3.15'', t_name = Some ''RNASPADES assembler''\<rparr>]"

definition repeated_id_catalog :: "tool list" where
  "repeated_id_catalog =
     [\<lparr>t_id = ''x'', t_name = Some ''Trinity''\<rparr>,
      \<lparr>t_id = ''y'', t_name = Some ''Oases''\<rparr>,
      \<lparr>t_id = ''x'', t_name = Some ''Velvet''\<rparr>]"

section \<open>Datasets and the two polling loops\<close>

text \<open>
  An item of a history listing. The code reads \<open>state\<close> and \<open>file_ext\<close> with \<open>get\<close>
  (so they may be \<open>None\<close>), \<open>name\<close> with the default \<open>''\<close>, \<open>deleted\<close> with the default
  \<open>False\<close>, and indexes \<open>id\<close> directly (line 334): every item has one.
\<close>

record dataset =
  ds_id :: string
  ds_name :: string
  ds_file_ext :: "string option"
  ds_deleted :: bool
  ds_state :: "string option"

text \<open>
  The printed diagnostics before \<open>sys.exit(1)\<close>, and the ways a run stops early:
  an uncaught \<open>TimeoutError\<close> or \<open>KeyError\<close>, or a reported exit.
\<close>

datatype diagnostic =
  UploadedNotFound | NoAssemblerTool | NoDatasetIdFastq2 | NoDatasetIdsPaired
  | NoPairedSlots | NoDataInput | NoConversionTool | OutputTimedOut

datatype exn = TimeoutError | KeyError string | Exit diagnostic

text \<open>
  What one polling loop sees of the remote service and of the wall clock: the listing
  its \<open>i\<close>-th call of \<open>show_history\<close> returns, the reading of \<open>time.time()\<close> at loop entry,
  and the reading taken after the \<open>i\<close>-th listing. Readings are real numbers of seconds;
  \<open>time.sleep\<close> only lets the clock advance.
\<close>

record view =
  shown :: "nat \<Rightarrow> dataset list"
  started :: real
  clock :: "nat \<Rightarrow> real"

text \<open>Lines 28 and 29: \<open>all(s in ('ok', 'error', 'discarded') for s in states)\<close>.\<close>

definition all_finished :: "dataset list \<Rightarrow> bool" where
  "all_finished hist =
     list_all (\<lambda>s. s \<in> set [Some ''ok'', Some ''error'', Some ''discarded''])
       (map ds_state hist)"

text \<open>
  The \<open>while True\<close> of \<open>wait_for_history_ready\<close>, from its \<open>i\<close>-th round on. A loop that
  never ends has the value \<open>None\<close>.
\<close>

partial_function (option) wait_loop :: "view \<Rightarrow> int \<Rightarrow> nat \<Rightarrow> (exn + dataset list) option" where
  "wait_loop v timeout i =
     (let hist = shown v i in
      if all_finished hist then Some (Inr hist)
      else if clock v i - started v > real_of_int timeout then Some (Inl TimeoutError)
      else wait_loop v timeout (Suc i))"

definition wait_for_history_ready :: "view \<Rightarrow> int \<Rightarrow> int \<Rightarrow> (exn + dataset list) option" where
  "wait_for_history_ready v poll_interval timeout = wait_loop v timeout 0"

text \<open>Line 44: the extension test and its fallback on the display name.\<close>

definition ext_matches :: "string list \<Rightarrow> dataset \<Rightarrow> bool" where
  "ext_matches exts ds =
     (or_empty (ds_file_ext ds) \<in> set exts \<or>
      list_ex (\<lambda>e. endswith (lower (ds_name ds)) (''.'' @ e)) exts)"

text \<open>Lines 41 to 49: the \<open>for\<close> loop over one listing, returning at the first match.\<close>

fun scan_contents :: "string list \<Rightarrow> string option \<Rightarrow> dataset list \<Rightarrow> dataset option" where
  "scan_contents exts name_contains [] = None"
| "scan_contents exts name_contains (ds # rest) =
     (if ext_matches exts ds then
        (if truthy name_contains then
           (if str_in (lower (or_empty name_contains)) (lower (ds_name ds)) then Some ds
            else scan_contents exts name_contains rest)
         else Some ds)
      else scan_contents exts name_contains rest)"

partial_function (option) poll_loop ::
  "view \<Rightarrow> string list \<Rightarrow> string option \<Rightarrow> int \<Rightarrow> nat \<Rightarrow> (exn + dataset) option" where
  "poll_loop v exts name_contains timeout i =
     (case scan_contents exts name_contains (shown v i) of
        Some ds \<Rightarrow> Some (Inr ds)
      | None \<Rightarrow>
          if clock v i - started v > real_of_int timeout then Some (Inl TimeoutError)
          else poll_loop v exts name_contains timeout (Suc i))"

definition poll_history_for_dataset_with_ext ::
  "view \<Rightarrow> string list \<Rightarrow> string option \<Rightarrow> int \<Rightarrow> int \<Rightarrow> (exn + dataset) option" where
  "poll_history_for_dataset_with_ext v exts name_contains poll_interval timeout =
     poll_loop v exts name_contains timeout 0"

definition default_exts :: "string list" where
  "default_exts = [''fasta'', ''fa'', ''fna'', ''fasta.gz'', ''fa.gz'', ''fna.gz'']"

section \<open>The schema matcher: \<open>find_input_slots_for_reads\<close>\<close>

text \<open>
  A node of a tool's input schema: the keys \<open>name\<close>, \<open>id\<close>, \<open>label\<close>, \<open>help\<close>, \<open>type\<close>
  (each absent or a string) and \<open>inputs\<close> (absent or a list of nodes).
\<close>

datatype input_node =
  Input (i_name: "string option") (i_id: "string option") (i_label: "string option")
        (i_help: "string option") (i_type: "string option")
        (i_inputs: "input_node list option")

text \<open>The six variables the nested function \<open>walk_inputs\<close> updates.\<close>

record slots =
  s_single :: "string option"
  s_left :: "string option"
  s_right :: "string option"
  s_explicit_single :: "string option"
  s_explicit_fwd :: "string option"
  s_explicit_rev :: "string option"

definition no_slots :: slots where
  "no_slots = \<lparr>s_single = None, s_left = None, s_right = None,
     s_explicit_single = None, s_explicit_fwd = None, s_explicit_rev = None\<rparr>"

text \<open>Lines 84 to 89.\<close>

definition node_name :: "input_node \<Rightarrow> string" where
  "node_name inp = or_empty (py_or (i_name inp) (i_id inp))"

definition node_label :: "input_node \<Rightarrow> string" where
  "node_label inp = or_empty (py_or (i_label inp) (i_help inp))"

definition combined :: "input_node \<Rightarrow> string" where
  "combined inp = lower (node_name inp) @ '' '' @ lower (node_label inp)"

text \<open>The tests of lines 91, 93, 95, 97, 98, 100 and 102.\<close>

definition names_single_reads :: "input_node \<Rightarrow> bool" where
  "names_single_reads inp = str_in ''single_reads'' (lower (node_name inp))"

definition names_fwd_reads :: "input_node \<Rightarrow> bool" where
  "names_fwd_reads inp =
     (str_in ''fwd_reads'' (lower (node_name inp)) \<or>
      str_in ''forward_reads'' (lower (node_name inp)))"

definition names_rev_reads :: "input_node \<Rightarrow> bool" where
  "names_rev_reads inp =
     (str_in ''rev_reads'' (lower (node_name inp)) \<or>
      str_in ''reverse_reads'' (lower (node_name inp)))"

definition accepts_file :: "input_node \<Rightarrow> bool" where
  "accepts_file inp =
     (i_type inp \<in> set [Some ''data'', Some ''data_collection'', Some ''data_input''])"

definition left_trigger :: "input_node \<Rightarrow> bool" where
  "left_trigger inp =
     list_ex (\<lambda>x. str_in x (combined inp))
       [''left'', ''read1'', ''r1'', ''forward'', ''paired 1'', ''paired_end_1'']"

definition right_trigger :: "input_node \<Rightarrow> bool" where
  "right_trigger inp =
     list_ex (\<lambda>x. str_in x (combined inp))
       [''right'', ''read2'', ''r2'', ''reverse'', ''paired 2'', ''paired_end_2'']"

definition single_trigger :: "input_node \<Rightarrow> bool" where
  "single_trigger inp =
     (str_in ''reads'' (combined inp) \<or> str_in ''fastq'' (combined inp) \<or>
      str_in ''sequence'' (combined inp))"

text \<open>Lines 91 to 104: what one round of the loop does to the six variables.\<close>

definition capture_explicit :: "input_node \<Rightarrow> slots \<Rightarrow> slots" where
  "capture_explicit inp s =
     (let s1 = (if names_single_reads inp
                then s\<lparr>s_explicit_single := Some (node_name inp)\<rparr> else s);
          s2 = (if names_fwd_reads inp
                then s1\<lparr>s_explicit_fwd := Some (node_name inp)\<rparr> else s1)
      in if names_rev_reads inp then s2\<lparr>s_explicit_rev := Some (node_name inp)\<rparr> else s2)"

definition classify :: "input_node \<Rightarrow> slots \<Rightarrow> slots" where
  "classify inp s =
     (if accepts_file inp then
        (if left_trigger inp then s\<lparr>s_left := Some (node_name inp)\<rparr>
         else if right_trigger inp then s\<lparr>s_right := Some (node_name inp)\<rparr>
         else if single_trigger inp then
           (if s_single s = None then s\<lparr>s_single := Some (node_name inp)\<rparr> else s)
         else s)
      else s)"

definition visit :: "input_node \<Rightarrow> slots \<Rightarrow> slots" where
  "visit inp s = classify inp (capture_explicit inp s)"

text \<open>Lines 81 to 106: the loop over a list of nodes, descending where line 105 does.\<close>

fun walk_inputs :: "input_node list \<Rightarrow> slots \<Rightarrow> slots" where
  "walk_inputs [] s = s"
| "walk_inputs (Input nm idd lab hlp ty inps # rest) s =
     (let s' = visit (Input nm idd lab hlp ty inps) s in
      walk_inputs rest (case inps of Some sub \<Rightarrow> walk_inputs sub s' | None \<Rightarrow> s'))"

text \<open>The argument is \<open>tool_info.get('inputs', [])\<close>.\<close>

definition find_input_slots_for_reads :: "input_node list \<Rightarrow> slots" where
  "find_input_slots_for_reads inputs = walk_inputs inputs no_slots"

text \<open>
  The nodes of a schema in depth-first order, parents before children, siblings in list
  order: every node that following nested \<open>inputs\<close> lists reaches.
\<close>

fun preorder :: "input_node list \<Rightarrow> input_node list" where
  "preorder [] = []"
| "preorder (Input nm idd lab hlp ty inps # rest) =
     Input nm idd lab hlp ty inps #
       (case inps of Some sub \<Rightarrow> preorder sub | None \<Rightarrow> []) @ preorder rest"

inductive reachable :: "input_node list \<Rightarrow> input_node \<Rightarrow> bool" where
  top: "inp \<in> set inputs \<Longrightarrow> reachable inputs inp"
| nested: "reachable inputs parent \<Longrightarrow> i_inputs parent = Some sub \<Longrightarrow> inp \<in> set sub
           \<Longrightarrow> reachable inputs inp"

text \<open>The first and the last element of a list, where there is one.\<close>

fun first_of :: "'a list \<Rightarrow> 'a option" where
  "first_of [] = None"
| "first_of (x # xs) = Some x"

definition last_of :: "'a list \<Rightarrow> 'a option" where
  "last_of xs = first_of (rev xs)"

section \<open>The orchestrator: \<open>main\<close>\<close>

text \<open>
  The command line after \<open>parse_args\<close>; the checks of lines 122 to 132 (URL, key, files
  exist) have passed. \<open>--fastq2\<close> is optional and \<open>--wait-timeout\<close> is a Python \<open>int\<close>.
\<close>

record args =
  a_fastq1 :: string
  a_fastq2 :: "string option"
  a_out :: string
  a_wait_timeout :: int

text \<open>
  A value of a parameter mapping: a literal, a flag, or a reference \<open>{'src': k, 'id': i}\<close>,
  whose \<open>id\<close> is whatever the lookup gave, \<open>None\<close> included.
\<close>

datatype pvalue = Lit string | Flag bool | Ref string "string option"

type_synonym mapping = "(string \<times> pvalue) list"

record element =
  e_name :: string
  e_src :: string
  e_id :: "string option"

record coll_desc =
  c_name :: string
  c_type :: "string option"
  c_elements :: "element list"

text \<open>
  The answers of the remote service during one run: what each polling loop sees, the
  listing of line 155, the tool catalog, each tool's \<open>inputs\<close>, and the identifier of a
  collection it is asked to create.
\<close>

record world =
  w_upload_view :: view
  w_contents :: "dataset list"
  w_catalog :: "tool list"
  w_show_tool :: "string \<Rightarrow> input_node list"
  w_create_collection :: "coll_desc \<Rightarrow> string"
  w_settle_view :: view
  w_output_view :: view

text \<open>
  The calls a run makes, in order: uploads, entries into the two waiting functions with
  their \<open>poll_interval\<close> and \<open>timeout\<close>, collections created, the tool run, the download.
\<close>

datatype event =
  Upload string
  | WaitReady int int
  | CreateCollection coll_desc
  | RunTool string mapping
  | PollOutput "string list" "string option" int int
  | Download string string

datatype status = Done | Raised exn | Diverged

text \<open>Lines 144 to 150.\<close>

definition upload_paths :: "args \<Rightarrow> string list" where
  "upload_paths a =
     (if truthy (a_fastq2 a) then [a_fastq1 a, or_empty (a_fastq2 a)] else [a_fastq1 a])"

text \<open>Lines 156 to 164: the dictionary \<open>name_to_dsid\<close>.\<close>

definition resolve_one :: "string list \<Rightarrow> dataset \<Rightarrow> (string \<times> string) list \<Rightarrow> (string \<times> string) list" where
  "resolve_one uploaded ds d =
     (if ds_deleted ds then d
      else foldl (\<lambda>d up. if str_in up (ds_name ds) then dict_set up (ds_id ds) d else d)
             d uploaded)"

definition resolve_uploaded :: "string list \<Rightarrow> dataset list \<Rightarrow> (string \<times> string) list" where
  "resolve_uploaded uploaded contents = foldl (\<lambda>d ds. resolve_one uploaded ds d) [] contents"

text \<open>Lines 166 to 169: the guard after the resolution.\<close>

definition resolve_step :: "string list \<Rightarrow> dataset list \<Rightarrow> exn + (string \<times> string) list" where
  "resolve_step uploaded contents =
     (let name_to_dsid = resolve_uploaded uploaded contents in
      if length name_to_dsid = 0 then Inl (Exit UploadedNotFound) else Inr name_to_dsid)"

definition candidates :: "string list" where
  "candidates = [''rnaSPAdes'', ''rnaspades'', ''trinity'', ''rnaplants'', ''rna-bloom'',
                 ''rna_bloom'', ''transabyss'', ''oases'']"

definition conv_candidates :: "string list" where
  "conv_candidates = [''toolshed.g2.bx.psu.edu/repos/devteam/fastq_to_fasta/fastq_to_fasta'',
                      ''seqtk_seq'', ''seqtk_seq_v2'']"

text \<open>Lines 241 to 257, with the loop variable \<open>preferred\<close> as an argument.\<close>

fun collection_loop :: "input_node list \<Rightarrow> string option \<Rightarrow> string option" where
  "collection_loop [] preferred = preferred"
| "collection_loop (Input nm idd lab hlp ty inps # rest) preferred =
     (let name = py_or nm idd;
          label = lower (or_empty (py_or lab hlp))
      in if ty = Some ''data_collection'' \<and>
            list_ex (\<lambda>k. str_in k (lower (or_empty name) @ '' '' @ label))
              [''read'', ''fastq'', ''sequence'', ''rna'']
         then name
         else
           (let preferred' =
                  (if ty = Some ''data_collection'' \<and> preferred = None then name else preferred)
            in case inps of
                 Some sub \<Rightarrow>
                   (let r = collection_loop sub None in
                    if truthy r then r else collection_loop rest preferred')
               | None \<Rightarrow> collection_loop rest preferred'))"

definition find_collection_input :: "input_node list \<Rightarrow> string option" where
  "find_collection_input inp_list = collection_loop inp_list None"

text \<open>Lines 272 to 280.\<close>

fun find_any_data_input :: "input_node list \<Rightarrow> string option" where
  "find_any_data_input [] = None"
| "find_any_data_input (Input nm idd lab hlp ty inps # rest) =
     (if ty \<in> set [Some ''data'', Some ''data_input''] then py_or nm idd
      else (case inps of
              Some sub \<Rightarrow>
                (let r = find_any_data_input sub in
                 if truthy r then r else find_any_data_input rest)
            | None \<Rightarrow> find_any_data_input rest))"

text \<open>Lines 186 to 200: the fixed nested keys for rnaSPAdes.\<close>

definition rnaspades_inputs :: "args \<Rightarrow> (string \<times> string) list \<Rightarrow> exn + mapping \<times> coll_desc list" where
  "rnaspades_inputs a name_to_dsid =
     (let dsid = dict_get name_to_dsid (basename (a_fastq1 a)) in
      if truthy (a_fastq2 a) then
        (let right_ds = dict_get name_to_dsid (basename (or_empty (a_fastq2 a))) in
         if falsy right_ds then Inl (Exit NoDatasetIdFastq2)
         else Inr (dict_set ''libraries_0|files_0|file_type|rev_reads'' (Ref ''hda'' right_ds)
                  (dict_set ''libraries_0|files_0|file_type|fwd_reads'' (Ref ''hda'' dsid)
                  (dict_set ''libraries_0|files_0|file_type|type'' (Lit ''separate'') [])), []))
      else Inr (dict_set ''libraries_0|files_0|file_type|unpaired_reads'' (Ref ''hda'' dsid)
               (dict_set ''libraries_0|files_0|file_type|type'' (Lit ''unpaired'') []), []))"

text \<open>Lines 203 to 232: paired input on any other tool.\<close>

definition paired_inputs ::
  "args \<Rightarrow> (string \<times> string) list \<Rightarrow> slots \<Rightarrow> (coll_desc \<Rightarrow> string)
     \<Rightarrow> exn + mapping \<times> coll_desc list" where
  "paired_inputs a name_to_dsid read_slots create_collection =
     (let b1 = basename (a_fastq1 a);
          b2 = basename (or_empty (a_fastq2 a));
          fwd_slot = py_or (s_explicit_fwd read_slots) (s_left read_slots);
          rev_slot = py_or (s_explicit_rev read_slots) (s_right read_slots)
      in if truthy fwd_slot \<and> truthy rev_slot then
           (let left_ds = dict_get name_to_dsid b1;
                right_ds = dict_get name_to_dsid b2
            in if falsy left_ds \<or> falsy right_ds then Inl (Exit NoDatasetIdsPaired)
               else Inr (dict_set (or_empty rev_slot) (Ref ''hda'' right_ds)
                        (dict_set (or_empty fwd_slot) (Ref ''hda'' left_ds) []), []))
         else
           (let single_slot = s_single read_slots in
            if truthy single_slot then
              (case dict_get name_to_dsid b1 of
                 None \<Rightarrow> Inl (KeyError b1)
               | Some id1 \<Rightarrow>
                   (case dict_get name_to_dsid b2 of
                      None \<Rightarrow> Inl (KeyError b2)
                    | Some id2 \<Rightarrow>
                        (let collection_desc =
                               \<lparr>c_name = ''paired_collection_demo'', c_type = None,
                                c_elements =
                                  [\<lparr>e_name = b1, e_src = ''hda'', e_id = Some id1\<rparr>,
                                   \<lparr>e_name = b2, e_src = ''hda'', e_id = Some id2\<rparr>]\<rparr>;
                             coll_id = create_collection collection_desc
                         in Inr (dict_set (or_empty single_slot) (Ref ''hdca'' (Some coll_id)) [],
                                 [collection_desc]))))
            else Inl (Exit NoPairedSlots)))"

text \<open>Lines 234 to 286: single-end input on any other tool.\<close>

definition single_inputs ::
  "args \<Rightarrow> (string \<times> string) list \<Rightarrow> slots \<Rightarrow> input_node list \<Rightarrow> (coll_desc \<Rightarrow> string)
     \<Rightarrow> exn + mapping \<times> coll_desc list" where
  "single_inputs a name_to_dsid read_slots tool_info create_collection =
     (let dsid = dict_get name_to_dsid (basename (a_fastq1 a));
          single_slot = py_or (s_explicit_single read_slots) (s_single read_slots)
      in if truthy single_slot then
           Inr (dict_set (or_empty single_slot) (Ref ''hda'' dsid) [], [])
         else
           (let collection_slot = find_collection_input tool_info in
            if truthy collection_slot then
              (let collection_desc =
                     \<lparr>c_name = ''reads_list'', c_type = Some ''list'',
                      c_elements =
                        [\<lparr>e_name = basename (a_fastq1 a), e_src = ''hda'', e_id = dsid\<rparr>]\<rparr>;
                   coll_id = create_collection collection_desc
               in Inr (dict_set (or_empty collection_slot) (Ref ''hdca'' (Some coll_id)) [],
                       [collection_desc]))
            else
              (let any_slot = find_any_data_input tool_info in
               if truthy any_slot then
                 Inr (dict_set (or_empty any_slot) (Ref ''hda'' dsid) [], [])
               else Inl (Exit NoDataInput))))"

text \<open>
  Lines 179 to 287: the mapping \<open>tool_inputs\<close> with the collections created on the way,
  or the way the run stopped.
\<close>

definition build_tool_inputs ::
  "args \<Rightarrow> (string \<times> string) list \<Rightarrow> string \<Rightarrow> input_node list \<Rightarrow> (coll_desc \<Rightarrow> string)
     \<Rightarrow> exn + mapping \<times> coll_desc list" where
  "build_tool_inputs a name_to_dsid tool_id tool_info create_collection =
     (let read_slots = find_input_slots_for_reads tool_info in
      if str_in ''rnaspades'' (lower tool_id) then rnaspades_inputs a name_to_dsid
      else if truthy (a_fastq2 a) then
        paired_inputs a name_to_dsid read_slots create_collection
      else single_inputs a name_to_dsid read_slots tool_info create_collection)"

text \<open>Lines 302 to 308.\<close>

definition conv_inputs :: "string option \<Rightarrow> mapping" where
  "conv_inputs dsid =
     foldl (\<lambda>d key. dict_set key (Flag True) d)
       (foldl (\<lambda>d key. dict_set key (Ref ''hda'' dsid) d) []
          [''input_fastq'', ''input_file'', ''fastq'', ''input''])
       [''to_fasta'', ''fasta_output'', ''convert_to_fasta'']"

text \<open>Lines 334 to 340.\<close>

definition fetch :: "args \<Rightarrow> dataset \<Rightarrow> event list \<Rightarrow> event list \<times> status" where
  "fetch a fasta_ds trace = (trace @ [Download (ds_id fasta_ds) (a_out a)], Done)"

text \<open>Lines 289 to 316: the conversion branch.\<close>

definition convert :: "args \<Rightarrow> world \<Rightarrow> (string \<times> string) list \<Rightarrow> event list \<Rightarrow> event list \<times> status" where
  "convert a w name_to_dsid trace =
     (let conv_tool = find_tool_by_keywords (w_catalog w) conv_candidates in
      if falsy conv_tool then (trace, Raised (Exit NoConversionTool))
      else
        (let dsid = dict_get name_to_dsid (basename (a_fastq1 a));
             trace1 = trace @ [RunTool (or_empty conv_tool) (conv_inputs dsid),
                           WaitReady 5 (a_wait_timeout a div 2)]
         in case wait_for_history_ready (w_settle_view w) 5 (a_wait_timeout a div 2) of
              None \<Rightarrow> (trace1, Diverged)
            | Some (Inl e) \<Rightarrow> (trace1, Raised e)
            | Some (Inr hist) \<Rightarrow>
                (let trace2 = trace1 @ [PollOutput default_exts None 5 900] in
                 case poll_history_for_dataset_with_ext (w_output_view w) default_exts None 5 900 of
                   None \<Rightarrow> (trace2, Diverged)
                 | Some (Inl e) \<Rightarrow> (trace2, Raised e)
                 | Some (Inr fasta_ds) \<Rightarrow> fetch a fasta_ds trace2)))"

text \<open>Lines 317 to 332: the assembler branch; its \<open>TimeoutError\<close> is caught and reported.\<close>

definition assemble :: "args \<Rightarrow> world \<Rightarrow> string \<Rightarrow> mapping \<Rightarrow> event list \<Rightarrow> event list \<times> status" where
  "assemble a w tool_id tool_inputs trace =
     (let trace1 = trace @ [RunTool tool_id tool_inputs, WaitReady 10 (a_wait_timeout a)] in
      case wait_for_history_ready (w_settle_view w) 10 (a_wait_timeout a) of
        None \<Rightarrow> (trace1, Diverged)
      | Some (Inl e) \<Rightarrow> (trace1, Raised e)
      | Some (Inr hist) \<Rightarrow>
          (let trace2 = trace1 @ [PollOutput default_exts None 5 1200] in
           case poll_history_for_dataset_with_ext (w_output_view w) default_exts None 5 1200 of
             None \<Rightarrow> (trace2, Diverged)
           | Some (Inl e) \<Rightarrow>
               (if e = TimeoutError then (trace2, Raised (Exit OutputTimedOut))
                else (trace2, Raised e))
           | Some (Inr fasta_ds) \<Rightarrow> fetch a fasta_ds trace2))"

text \<open>Lines 288 to 340: \<open>if not tool_inputs\<close> chooses between the two.\<close>

definition launch ::
  "args \<Rightarrow> world \<Rightarrow> (string \<times> string) list \<Rightarrow> string \<Rightarrow> mapping \<Rightarrow> event list
     \<Rightarrow> event list \<times> status" where
  "launch a w name_to_dsid tool_id tool_inputs trace =
     (if tool_inputs = [] then convert a w name_to_dsid trace
      else assemble a w tool_id tool_inputs trace)"

text \<open>Lines 142 to 342.\<close>

definition main :: "args \<Rightarrow> world \<Rightarrow> event list \<times> status" where
  "main a w =
     (let uploaded = map basename (upload_paths a);
          trace0 = map Upload (upload_paths a) @ [WaitReady 3 (a_wait_timeout a div 4)]
      in case wait_for_history_ready (w_upload_view w) 3 (a_wait_timeout a div 4) of
           None \<Rightarrow> (trace0, Diverged)
         | Some (Inl e) \<Rightarrow> (trace0, Raised e)
         | Some (Inr hist) \<Rightarrow>
             (case resolve_step uploaded (w_contents w) of
                Inl e \<Rightarrow> (trace0, Raised e)
              | Inr name_to_dsid \<Rightarrow>
                  (let tool_id = find_tool_by_keywords (w_catalog w) candidates in
                   if falsy tool_id then (trace0, Raised (Exit NoAssemblerTool))
                   else
                     (let tool_info = w_show_tool w (or_empty tool_id) in
                      case build_tool_inputs a name_to_dsid (or_empty tool_id) tool_info
                             (w_create_collection w) of
                        Inl e \<Rightarrow> (trace0, Raised e)
                      | Inr (tool_inputs, colls) \<Rightarrow>
                          launch a w name_to_dsid (or_empty tool_id) tool_inputs
                            (trace0 @ map CreateCollection colls)))))"

text \<open>The waiting calls of a trace.\<close>

fun is_wait :: "event \<Rightarrow> bool" where
  "is_wait (WaitReady i t) = True"
| "is_wait (PollOutput es n i t) = True"
| "is_wait e = False"

definition waits_of :: "event list \<Rightarrow> event list" where
  "waits_of trace = filter is_wait trace"

text \<open>
  The three branches of lines 97 to 104 as tests on a node: the \<open>elif\<close> chain lets a
  node count for \<open>right\<close> only when no left trigger matches, and for \<open>single\<close> only
  when neither does.
\<close>

definition left_match :: "input_node \<Rightarrow> bool" where
  "left_match inp = (accepts_file inp \<and> left_trigger inp)"

definition right_match :: "input_node \<Rightarrow> bool" where
  "right_match inp = (accepts_file inp \<and> \<not> left_trigger inp \<and> right_trigger inp)"

definition single_match :: "input_node \<Rightarrow> bool" where
  "single_match inp =
     (accepts_file inp \<and> \<not> left_trigger inp \<and> \<not> right_trigger inp \<and> single_trigger inp)"

text \<open>Schemas used as concrete inputs.\<close>

definition two_pairs_example :: "input_node list" where
  "two_pairs_example =
     [Input (Some ''read1_a'') None None None (Some ''data'') None,
      Input (Some ''read2_a'') None None None (Some ''data'') None,
      Input (Some ''group'') None None None (Some ''section'')
        (Some [Input (Some ''read1_b'') None None None (Some ''data'') None,
               Input (Some ''read2_b'') None None None (Some ''data'') None])]"

definition container_example :: "input_node list" where
  "container_example =
     [Input (Some ''library'') None None None (Some ''conditional'')
        (Some [Input (Some ''fwd_reads_section'') None None None (Some ''section'')
                 (Some [Input (Some ''input1'') None (Some ''FASTQ reads'') None
                          (Some ''data'') None])])]"

definition fwd_section :: input_node where
  "fwd_section = Input (Some ''fwd_reads_section'') None None None (Some ''section'')
                 (Some [Input (Some ''input1'') None (Some ''FASTQ reads'') None
                          (Some ''data'') None])"

text \<open>The deadline test of lines 31 and 50 at round \<open>i\<close>.\<close>

definition late :: "view \<Rightarrow> int \<Rightarrow> nat \<Rightarrow> bool" where
  "late v timeout i = (clock v i - started v > real_of_int timeout)"

text \<open>Lines 44 to 49 as one test on an item.\<close>

definition wanted :: "string list \<Rightarrow> string option \<Rightarrow> dataset \<Rightarrow> bool" where
  "wanted exts name_contains ds =
     (ext_matches exts ds \<and>
      (if truthy name_contains
       then str_in (lower (or_empty name_contains)) (lower (ds_name ds)) else True))"

text \<open>Views and datasets used as concrete inputs.\<close>

definition running_then_ok :: view where
  "running_then_ok =
     \<lparr>shown = (\<lambda>i. if i = 0
                   then [\<lparr>ds_id = ''d1'', ds_name = ''a.fastq'', ds_file_ext = Some ''fastq'',
                          ds_deleted = False, ds_state = Some ''running''\<rparr>]
                   else [\<lparr>ds_id = ''d1'', ds_name = ''a.fastq'', ds_file_ext = Some ''fastq'',
                          ds_deleted = False, ds_state = Some ''ok''\<rparr>]),
      started = 0,
      clock = (\<lambda>i. 3 * real i)\<rparr>"

definition stuck_view :: view where
  "stuck_view =
     \<lparr>shown = (\<lambda>i. [\<lparr>ds_id = ''d1'', ds_name = ''a.fastq'', ds_file_ext = Some ''fastq'',
                          ds_deleted = False, ds_state = Some ''running''\<rparr>]),
      started = 0,
      clock = (\<lambda>i. 400 * real i)\<rparr>"

definition result_fasta_gz :: dataset where
  "result_fasta_gz = \<lparr>ds_id = ''d9'', ds_name = ''result.FASTA.gz'', ds_file_ext = Some '''',
                       ds_deleted = False, ds_state = Some ''ok''\<rparr>"

definition result_fasta :: dataset where
  "result_fasta = \<lparr>ds_id = ''d8'', ds_name = ''result.FASTA'', ds_file_ext = Some '''',
                    ds_deleted = False, ds_state = Some ''ok''\<rparr>"

definition gz_view :: view where
  "gz_view = \<lparr>shown = (\<lambda>i. [result_fasta_gz]), started = 0, clock = (\<lambda>i. 1000 + 5 * real i)\<rparr>"

definition fasta_view :: view where
  "fasta_view = \<lparr>shown = (\<lambda>i. if i = 0 then [] else [result_fasta_gz, result_fasta]),
                  started = 0, clock = (\<lambda>i. 5 * real i)\<rparr>"

text \<open>Lines 158 and 163 as one test: the item is not deleted and its name contains \<open>up\<close>.\<close>

definition resolves_in :: "string \<Rightarrow> dataset \<Rightarrow> bool" where
  "resolves_in up ds = (\<not> ds_deleted ds \<and> str_in up (ds_name ds))"


text \<open>Every reference of a mapping carries an identifier.\<close>

fun has_id :: "pvalue \<Rightarrow> bool" where
  "has_id (Ref src None) = False"
| "has_id v = True"

definition refs_resolved :: "mapping \<Rightarrow> bool" where
  "refs_resolved m = list_all (\<lambda>e. has_id (snd e)) m"

text \<open>Arguments, histories, schemas and services used as concrete inputs.\<close>

definition deleted_a :: dataset where
  "deleted_a = \<lparr>ds_id = ''d1'', ds_name = ''a.fastq'', ds_file_ext = Some ''fastq'',
                 ds_deleted = True, ds_state = Some ''discarded''\<rparr>"

definition ok_b :: dataset where
  "ok_b = \<lparr>ds_id = ''d2'', ds_name = ''b.fastq'', ds_file_ext = Some ''fastq'',
            ds_deleted = False, ds_state = Some ''ok''\<rparr>"

definition paired_files_tool :: "input_node list" where
  "paired_files_tool =
     [Input (Some ''input_reads'') None (Some ''paired files'') None
        (Some ''data_collection'') None]"

definition paired_args :: args where
  "paired_args = \<lparr>a_fastq1 = ''run/a.fastq'', a_fastq2 = Some ''run/b.fastq'',
                   a_out = ''assembly.fasta'', a_wait_timeout = 3600\<rparr>"

definition single_args :: args where
  "single_args = \<lparr>a_fastq1 = ''run/a.fastq'', a_fastq2 = None,
                   a_out = ''assembly.fasta'', a_wait_timeout = 3600\<rparr>"

definition both_resolved :: "(string \<times> string) list" where
  "both_resolved = [(''a.fastq'', ''d1''), (''b.fastq'', ''d2'')]"

definition direct_tool :: "input_node list" where
  "direct_tool =
     [Input (Some ''left_input'') None None None (Some ''data'') None,
      Input (Some ''right_input'') None None None (Some ''data'') None]"

definition settled :: "dataset list \<Rightarrow> view" where
  "settled hist = \<lparr>shown = (\<lambda>i. hist), started = 0, clock = (\<lambda>i. 5 * real i)\<rparr>"

definition uploaded_a :: dataset where
  "uploaded_a = \<lparr>ds_id = ''d1'', ds_name = ''a.fastq'', ds_file_ext = Some ''fastq'',
                  ds_deleted = False, ds_state = Some ''ok''\<rparr>"

definition assembled :: dataset where
  "assembled = \<lparr>ds_id = ''d3'', ds_name = ''transcripts'', ds_file_ext = Some ''fasta'',
                 ds_deleted = False, ds_state = Some ''ok''\<rparr>"

definition bare_world :: world where
  "bare_world =
     \<lparr>w_upload_view = settled [uploaded_a],
      w_contents = [uploaded_a],
      w_catalog = [\<lparr>t_id = ''trinity/2.9'', t_name = Some ''Trinity''\<rparr>],
      w_show_tool = (\<lambda>tid. []),
      w_create_collection = (\<lambda>desc. ''c1''),
      w_settle_view = settled [uploaded_a, assembled],
      w_output_view = settled [uploaded_a, assembled]\<rparr>"

definition rnaspades_world :: world where
  "rnaspades_world =
     \<lparr>w_upload_view = settled [deleted_a, ok_b],
      w_contents = [deleted_a, ok_b],
      w_catalog = [\<lparr>t_id = ''toolshed/rnaspades/4.0'', t_name = Some ''rnaSPAdes''\<rparr>],
      w_show_tool = (\<lambda>tid. []),
      w_create_collection = (\<lambda>desc. ''c1''),
      w_settle_view = settled [deleted_a, ok_b, assembled],
      w_output_view = settled [deleted_a, ok_b, assembled]\<rparr>"

definition lost_world :: world where
  "lost_world =
     \<lparr>w_upload_view = settled [deleted_a],
      w_contents = [deleted_a],
      w_catalog = [\<lparr>t_id = ''trinity/2.9'', t_name = Some ''Trinity''\<rparr>],
      w_show_tool = (\<lambda>tid. []),
      w_create_collection = (\<lambda>desc. ''c1''),
      w_settle_view = settled [deleted_a],
      w_output_view = settled [deleted_a]\<rparr>"




definition fastq_reads_tool :: "input_node list" where
  "fastq_reads_tool =
     [Input (Some ''input1'') None (Some ''FASTQ reads'') None (Some ''data'') None]"

definition fastq_world :: world where
  "fastq_world =
     \<lparr>w_upload_view = settled [uploaded_a],
      w_contents = [uploaded_a],
      w_catalog = [\<lparr>t_id = ''trinity/2.9'', t_name = Some ''Trinity''\<rparr>],
      w_show_tool = (\<lambda>tid. fastq_reads_tool),
      w_create_collection = (\<lambda>desc. ''c1''),
      w_settle_view = settled [uploaded_a, assembled],
      w_output_view = settled [uploaded_a, assembled]\<rparr>"

definition converter_world :: world where
  "converter_world =
     \<lparr>w_upload_view = settled [uploaded_a],
      w_contents = [uploaded_a],
      w_catalog = [\<lparr>t_id = ''seqtk_seq'', t_name = Some ''seqtk seq''\<rparr>],
      w_show_tool = (\<lambda>tid. []),
      w_create_collection = (\<lambda>desc. ''c1''),
      w_settle_view = settled [uploaded_a, assembled],
      w_output_view = settled [uploaded_a, assembled]\<rparr>"

definition trinity_world :: world where
  "trinity_world =
     \<lparr>w_upload_view = settled [deleted_a, ok_b],
      w_contents = [deleted_a, ok_b],
      w_catalog = [\<lparr>t_id = ''trinity/2.9'', t_name = Some ''Trinity''\<rparr>],
      w_show_tool = (\<lambda>tid. direct_tool),
      w_create_collection = (\<lambda>desc. ''c1''),
      w_settle_view = settled [deleted_a, ok_b, assembled],
      w_output_view = settled [deleted_a, ok_b, assembled]\<rparr>"

section \<open>Properties of the schema matcher\<close>

lemma walk_inputs_Cons:
  "walk_inputs (inp # rest) s =
     walk_inputs rest (case i_inputs inp of Some sub \<Rightarrow> walk_inputs sub (visit inp s)
                       | None \<Rightarrow> visit inp s)"
  by (cases inp) (auto simp: Let_def split: option.splits)

lemma preorder_Cons:
  "preorder (inp # rest) =
     inp # (case i_inputs inp of Some sub \<Rightarrow> preorder sub | None \<Rightarrow> []) @ preorder rest"
  by (cases inp) simp

lemma walk_inputs_foldl:
  "walk_inputs inputs s = foldl (\<lambda>s inp. visit inp s) s (preorder inputs)"
proof (induction inputs s rule: walk_inputs.induct)
  case (1 s)
  show ?case by simp
next
  case (2 nm idd lab hlp ty inps rest s)
  show ?case
  proof (cases inps)
    case None
    with 2 show ?thesis by simp
  next
    case (Some sub)
    with 2 show ?thesis by simp
  qed
qed

lemma reachable_below:
  "reachable sub x \<Longrightarrow> reachable inputs parent \<Longrightarrow> i_inputs parent = Some sub \<Longrightarrow>
   reachable inputs x"
proof (induction rule: reachable.induct)
  case (top x sub)
  then show ?case by (auto intro: reachable.nested)
next
  case (nested sub parent' sub' x)
  then show ?case by (auto intro: reachable.nested)
qed

lemma reachable_mono:
  "reachable rest x \<Longrightarrow> set rest \<subseteq> set inputs \<Longrightarrow> reachable inputs x"
proof (induction rule: reachable.induct)
  case (top x rest)
  then show ?case by (auto intro: reachable.top)
next
  case (nested rest parent sub x)
  then show ?case by (auto intro: reachable.nested)
qed

lemma preorder_sound: "inp \<in> set (preorder inputs) \<Longrightarrow> reachable inputs inp"
proof (induction inputs arbitrary: inp rule: preorder.induct)
  case 1
  then show ?case by simp
next
  case (2 nm idd lab hlp ty inps rest)
  let ?n = "Input nm idd lab hlp ty inps"
  from "2.prems" consider (head) "inp = ?n"
    | (below) sub where "inps = Some sub" "inp \<in> set (preorder sub)"
    | (later) "inp \<in> set (preorder rest)"
    by (auto split: option.splits)
  then show ?case
  proof cases
    case head
    then show ?thesis by (simp add: reachable.top)
  next
    case below
    have top: "reachable (?n # rest) ?n" by (simp add: reachable.top)
    from "2.IH"(1)[OF below(1) below(2)] have "reachable sub inp" .
    then show ?thesis using top below(1) by (auto intro: reachable_below)
  next
    case later
    from "2.IH"(2)[OF later] have "reachable rest inp" .
    then show ?thesis by (rule reachable_mono) auto
  qed
qed

lemma preorder_top: "inp \<in> set inputs \<Longrightarrow> inp \<in> set (preorder inputs)"
  by (induction inputs rule: preorder.induct) auto

lemma preorder_nested:
  "parent \<in> set (preorder inputs) \<Longrightarrow> i_inputs parent = Some sub \<Longrightarrow>
   inp \<in> set sub \<Longrightarrow> inp \<in> set (preorder inputs)"
proof (induction inputs rule: preorder.induct)
  case 1
  then show ?case by simp
next
  case (2 nm idd lab hlp ty inps rest)
  let ?n = "Input nm idd lab hlp ty inps"
  from "2.prems"(1) consider (head) "parent = ?n"
    | (below) sub' where "inps = Some sub'" "parent \<in> set (preorder sub')"
    | (later) "parent \<in> set (preorder rest)"
    by (auto split: option.splits)
  then show ?case
  proof cases
    case head
    with "2.prems" have "inps = Some sub" by simp
    moreover have "inp \<in> set (preorder sub)" using "2.prems"(3) by (rule preorder_top)
    ultimately show ?thesis by simp
  next
    case below
    from "2.IH"(1)[OF below(1) below(2) "2.prems"(2) "2.prems"(3)] below(1)
    show ?thesis by simp
  next
    case later
    from "2.IH"(2)[OF later "2.prems"(2) "2.prems"(3)] show ?thesis by simp
  qed
qed

lemma preorder_complete: "reachable inputs inp \<Longrightarrow> inp \<in> set (preorder inputs)"
  by (induction rule: reachable.induct) (auto intro: preorder_top preorder_nested)

lemma preorder_reachable: "inp \<in> set (preorder inputs) \<longleftrightarrow> reachable inputs inp"
  using preorder_sound preorder_complete by blast

lemma visit_left: "s_left (visit inp s) = (if left_match inp then Some (node_name inp) else s_left s)"
  by (simp add: visit_def classify_def capture_explicit_def left_match_def Let_def)

lemma visit_right:
  "s_right (visit inp s) = (if right_match inp then Some (node_name inp) else s_right s)"
  by (simp add: visit_def classify_def capture_explicit_def right_match_def Let_def)

lemma visit_single:
  "s_single (visit inp s) =
     (if single_match inp \<and> s_single s = None then Some (node_name inp) else s_single s)"
  by (simp add: visit_def classify_def capture_explicit_def single_match_def Let_def)

lemma visit_explicit_single:
  "s_explicit_single (visit inp s) =
     (if names_single_reads inp then Some (node_name inp) else s_explicit_single s)"
  by (simp add: visit_def classify_def capture_explicit_def Let_def)

lemma visit_explicit_fwd:
  "s_explicit_fwd (visit inp s) =
     (if names_fwd_reads inp then Some (node_name inp) else s_explicit_fwd s)"
  by (simp add: visit_def classify_def capture_explicit_def Let_def)

lemma visit_explicit_rev:
  "s_explicit_rev (visit inp s) =
     (if names_rev_reads inp then Some (node_name inp) else s_explicit_rev s)"
  by (simp add: visit_def classify_def capture_explicit_def Let_def)

lemma last_of_Cons:
  "last_of (x # xs) = (case last_of xs of None \<Rightarrow> Some x | Some y \<Rightarrow> Some y)"
proof (cases "rev xs")
  case Nil
  then show ?thesis by (simp add: last_of_def)
next
  case (Cons y ys)
  then show ?thesis by (simp add: last_of_def)
qed

lemma last_of_Nil: "last_of [] = None"
  by (simp add: last_of_def)

lemma foldl_last_wins:
  assumes step: "\<And>x s. g (f s x) = (if P x then Some (h x) else g s)"
  shows "g (foldl f s xs) =
           (case last_of (filter P xs) of None \<Rightarrow> g s | Some x \<Rightarrow> Some (h x))"
proof (induction xs arbitrary: s)
  case Nil
  then show ?case by (simp add: last_of_Nil)
next
  case (Cons x xs)
  show ?case
    by (simp add: Cons.IH step last_of_Cons last_of_Nil split: option.splits)
qed

lemma foldl_first_wins:
  assumes step: "\<And>x s. g (f s x) = (if P x \<and> g s = None then Some (h x) else g s)"
  shows "g (foldl f s xs) =
           (case g s of None \<Rightarrow> map_option h (first_of (filter P xs)) | Some y \<Rightarrow> Some y)"
proof (induction xs arbitrary: s)
  case Nil
  then show ?case by (simp split: option.splits)
next
  case (Cons x xs)
  show ?case
    by (simp add: Cons.IH step split: option.splits)
qed

lemma slots_last:
  "s_left (walk_inputs inputs s) =
     (case last_of (filter left_match (preorder inputs)) of
        None \<Rightarrow> s_left s | Some inp \<Rightarrow> Some (node_name inp))"
  "s_right (walk_inputs inputs s) =
     (case last_of (filter right_match (preorder inputs)) of
        None \<Rightarrow> s_right s | Some inp \<Rightarrow> Some (node_name inp))"
  "s_explicit_single (walk_inputs inputs s) =
     (case last_of (filter names_single_reads (preorder inputs)) of
        None \<Rightarrow> s_explicit_single s | Some inp \<Rightarrow> Some (node_name inp))"
  "s_explicit_fwd (walk_inputs inputs s) =
     (case last_of (filter names_fwd_reads (preorder inputs)) of
        None \<Rightarrow> s_explicit_fwd s | Some inp \<Rightarrow> Some (node_name inp))"
  "s_explicit_rev (walk_inputs inputs s) =
     (case last_of (filter names_rev_reads (preorder inputs)) of
        None \<Rightarrow> s_explicit_rev s | Some inp \<Rightarrow> Some (node_name inp))"
  unfolding walk_inputs_foldl
  by (rule foldl_last_wins, rule visit_left visit_right visit_explicit_single
      visit_explicit_fwd visit_explicit_rev)+

lemma slots_first:
  "s_single (walk_inputs inputs s) =
     (case s_single s of
        None \<Rightarrow> map_option node_name (first_of (filter single_match (preorder inputs)))
      | Some y \<Rightarrow> Some y)"
  unfolding walk_inputs_foldl
  by (rule foldl_first_wins, rule visit_single)

lemma last_of_None: "last_of xs = None \<longleftrightarrow> xs = []"
  by (cases "rev xs") (auto simp: last_of_def)

lemma last_of_Some_mem: "last_of xs = Some x \<Longrightarrow> x \<in> set xs"
proof -
  assume a: "last_of xs = Some x"
  then obtain ys where "rev xs = x # ys" by (cases "rev xs") (auto simp: last_of_def)
  then have "x \<in> set (rev xs)" by simp
  then show ?thesis by simp
qed

lemma last_filter_hit:
  "x \<in> set xs \<Longrightarrow> P x \<Longrightarrow> \<exists>m. last_of (filter P xs) = Some m \<and> m \<in> set xs \<and> P m"
proof -
  assume "x \<in> set xs" "P x"
  then have "filter P xs \<noteq> []" by (auto simp: filter_empty_conv)
  then obtain m where m: "last_of (filter P xs) = Some m"
    using last_of_None[of "filter P xs"] by (cases "last_of (filter P xs)") auto
  from last_of_Some_mem[OF m] have "m \<in> set xs \<and> P m" by simp
  with m show ?thesis by blast
qed

text \<open>
  C2, as stated, fails for the left and right slots: on a schema with two eligible nodes
  matching a left trigger and two matching a right trigger, the first matches are
  \<open>read1_a\<close> and \<open>read2_a\<close>, and the code returns the last ones.
\<close>

theorem left_right_first_match_counterexample:
  "map_option node_name (first_of (filter left_match (preorder two_pairs_example))) = Some ''read1_a'' \<and>
   s_left (find_input_slots_for_reads two_pairs_example) = Some ''read1_b'' \<and>
   map_option node_name (first_of (filter right_match (preorder two_pairs_example))) = Some ''read2_a'' \<and>
   s_right (find_input_slots_for_reads two_pairs_example) = Some ''read2_b''"
  by code_simp

text \<open>
  C2, amended. Over the nodes in traversal order: \<open>single\<close> is the name of the first
  eligible node that matches the single triggers and neither the left nor the right ones
  (once set, no later node changes it); \<open>left\<close> is the name of the last eligible node
  matching a left trigger and \<open>right\<close> the name of the last eligible node matching a
  right trigger and no left trigger (last match wins, not first); each explicit field is
  the name of the last node, of any type, whose lowercased name contains its literal.
\<close>

theorem slots_match_order:
  "s_single (find_input_slots_for_reads inputs) =
     map_option node_name (first_of (filter single_match (preorder inputs))) \<and>
   s_left (find_input_slots_for_reads inputs) =
     map_option node_name (last_of (filter left_match (preorder inputs))) \<and>
   s_right (find_input_slots_for_reads inputs) =
     map_option node_name (last_of (filter right_match (preorder inputs))) \<and>
   s_explicit_single (find_input_slots_for_reads inputs) =
     map_option node_name (last_of (filter names_single_reads (preorder inputs))) \<and>
   s_explicit_fwd (find_input_slots_for_reads inputs) =
     map_option node_name (last_of (filter names_fwd_reads (preorder inputs))) \<and>
   s_explicit_rev (find_input_slots_for_reads inputs) =
     map_option node_name (last_of (filter names_rev_reads (preorder inputs))) \<and>
   (s_single s \<noteq> None \<longrightarrow> s_single (walk_inputs inputs s) = s_single s)"
proof -
  have 1: "s_single (find_input_slots_for_reads inputs) =
     map_option node_name (first_of (filter single_match (preorder inputs)))"
    by (simp add: find_input_slots_for_reads_def slots_first no_slots_def)
  have 2: "s_left (find_input_slots_for_reads inputs) =
     map_option node_name (last_of (filter left_match (preorder inputs)))"
    by (simp add: find_input_slots_for_reads_def slots_last no_slots_def split: option.splits)
  have 3: "s_right (find_input_slots_for_reads inputs) =
     map_option node_name (last_of (filter right_match (preorder inputs)))"
    by (simp add: find_input_slots_for_reads_def slots_last no_slots_def split: option.splits)
  have 4: "s_explicit_single (find_input_slots_for_reads inputs) =
     map_option node_name (last_of (filter names_single_reads (preorder inputs)))"
    by (simp add: find_input_slots_for_reads_def slots_last no_slots_def split: option.splits)
  have 5: "s_explicit_fwd (find_input_slots_for_reads inputs) =
     map_option node_name (last_of (filter names_fwd_reads (preorder inputs)))"
    by (simp add: find_input_slots_for_reads_def slots_last no_slots_def split: option.splits)
  have 6: "s_explicit_rev (find_input_slots_for_reads inputs) =
     map_option node_name (last_of (filter names_rev_reads (preorder inputs)))"
    by (simp add: find_input_slots_for_reads_def slots_last no_slots_def split: option.splits)
  have 7: "s_single s \<noteq> None \<longrightarrow> s_single (walk_inputs inputs s) = s_single s"
    by (auto simp: slots_first)
  from 1 2 3 4 5 6 7 show ?thesis by blast
qed

theorem slots_match_order_witness:
  "s_single (no_slots\<lparr>s_single := Some ''chosen''\<rparr>) \<noteq> None \<and>
   s_single (walk_inputs container_example (no_slots\<lparr>s_single := Some ''chosen''\<rparr>)) = Some ''chosen'' \<and>
   s_single (find_input_slots_for_reads container_example) = Some ''input1'' \<and>
   s_left (find_input_slots_for_reads two_pairs_example) = Some ''read1_b''"
proof -
  have h: "s_single (no_slots\<lparr>s_single := Some ''chosen''\<rparr>) \<noteq> None" by simp
  have a: "s_single (walk_inputs container_example (no_slots\<lparr>s_single := Some ''chosen''\<rparr>)) = Some ''chosen''"
    using slots_match_order [of container_example "no_slots\<lparr>s_single := Some ''chosen''\<rparr>"] h
    by simp
  have b0: "map_option node_name (first_of (filter single_match (preorder container_example)))
              = Some ''input1''"
    by code_simp
  have b: "s_single (find_input_slots_for_reads container_example) = Some ''input1''"
    using slots_match_order [of container_example no_slots] b0 by simp
  have c0: "map_option node_name (last_of (filter left_match (preorder two_pairs_example)))
              = Some ''read1_b''"
    by code_simp
  have c: "s_left (find_input_slots_for_reads two_pairs_example) = Some ''read1_b''"
    using slots_match_order [of two_pairs_example no_slots] c0 by simp
  from h a b c show ?thesis by blast
qed

lemma explicit_fires:
  assumes r: "reachable inputs inp" and p: "P inp"
    and eq: "g (find_input_slots_for_reads inputs) =
               map_option node_name (last_of (filter P (preorder inputs)))"
  shows "\<exists>m. reachable inputs m \<and> P m \<and> g (find_input_slots_for_reads inputs) = Some (node_name m)"
proof -
  from r have "inp \<in> set (preorder inputs)" by (simp add: preorder_reachable)
  from last_filter_hit[of inp "preorder inputs" P, OF this p] obtain m where
    m: "last_of (filter P (preorder inputs)) = Some m" "m \<in> set (preorder inputs)" "P m"
    by blast
  from m(2) have "reachable inputs m" by (simp add: preorder_reachable)
  with m(1,3) eq show ?thesis by auto
qed

text \<open>
  C3. The traversal visits exactly the nodes reachable through nested \<open>inputs\<close> lists,
  each once in depth-first order, whatever the type of the node that holds the list; so
  an explicit key is captured from any reachable node whose name contains the literal,
  container nodes included, while a node whose type is not \<open>data\<close>, \<open>data_collection\<close>
  or \<open>data_input\<close> leaves \<open>left\<close>, \<open>right\<close> and \<open>single\<close> as they were.
\<close>

theorem walk_visits_every_reachable_node:
  "find_input_slots_for_reads inputs = foldl (\<lambda>s inp. visit inp s) no_slots (preorder inputs) \<and>
   (\<forall>inp. inp \<in> set (preorder inputs) \<longleftrightarrow> reachable inputs inp) \<and>
   (\<forall>inp. reachable inputs inp \<and> names_single_reads inp \<longrightarrow>
      (\<exists>m. reachable inputs m \<and> names_single_reads m \<and>
           s_explicit_single (find_input_slots_for_reads inputs) = Some (node_name m))) \<and>
   (\<forall>inp. reachable inputs inp \<and> names_fwd_reads inp \<longrightarrow>
      (\<exists>m. reachable inputs m \<and> names_fwd_reads m \<and>
           s_explicit_fwd (find_input_slots_for_reads inputs) = Some (node_name m))) \<and>
   (\<forall>inp. reachable inputs inp \<and> names_rev_reads inp \<longrightarrow>
      (\<exists>m. reachable inputs m \<and> names_rev_reads m \<and>
           s_explicit_rev (find_input_slots_for_reads inputs) = Some (node_name m))) \<and>
   (\<forall>inp s. names_single_reads inp \<longrightarrow> s_explicit_single (visit inp s) = Some (node_name inp)) \<and>
   (\<forall>inp s. names_fwd_reads inp \<longrightarrow> s_explicit_fwd (visit inp s) = Some (node_name inp)) \<and>
   (\<forall>inp s. names_rev_reads inp \<longrightarrow> s_explicit_rev (visit inp s) = Some (node_name inp)) \<and>
   (\<forall>inp s. \<not> accepts_file inp \<longrightarrow>
      s_left (visit inp s) = s_left s \<and> s_right (visit inp s) = s_right s \<and>
      s_single (visit inp s) = s_single s)"
proof -
  have 1: "find_input_slots_for_reads inputs = foldl (\<lambda>s inp. visit inp s) no_slots (preorder inputs)"
    by (simp add: find_input_slots_for_reads_def walk_inputs_foldl)
  have 2: "\<forall>inp. inp \<in> set (preorder inputs) \<longleftrightarrow> reachable inputs inp"
    by (simp add: preorder_reachable)
  have e1: "s_explicit_single (find_input_slots_for_reads inputs) =
     map_option node_name (last_of (filter names_single_reads (preorder inputs)))"
    by (simp add: find_input_slots_for_reads_def slots_last no_slots_def split: option.splits)
  have e2: "s_explicit_fwd (find_input_slots_for_reads inputs) =
     map_option node_name (last_of (filter names_fwd_reads (preorder inputs)))"
    by (simp add: find_input_slots_for_reads_def slots_last no_slots_def split: option.splits)
  have e3: "s_explicit_rev (find_input_slots_for_reads inputs) =
     map_option node_name (last_of (filter names_rev_reads (preorder inputs)))"
    by (simp add: find_input_slots_for_reads_def slots_last no_slots_def split: option.splits)
  have 3: "\<forall>inp. reachable inputs inp \<and> names_single_reads inp \<longrightarrow>
      (\<exists>m. reachable inputs m \<and> names_single_reads m \<and>
           s_explicit_single (find_input_slots_for_reads inputs) = Some (node_name m))"
    using explicit_fires[where P = names_single_reads and g = s_explicit_single, OF _ _ e1]
    by blast
  have 4: "\<forall>inp. reachable inputs inp \<and> names_fwd_reads inp \<longrightarrow>
      (\<exists>m. reachable inputs m \<and> names_fwd_reads m \<and>
           s_explicit_fwd (find_input_slots_for_reads inputs) = Some (node_name m))"
    using explicit_fires[where P = names_fwd_reads and g = s_explicit_fwd, OF _ _ e2]
    by blast
  have 5: "\<forall>inp. reachable inputs inp \<and> names_rev_reads inp \<longrightarrow>
      (\<exists>m. reachable inputs m \<and> names_rev_reads m \<and>
           s_explicit_rev (find_input_slots_for_reads inputs) = Some (node_name m))"
    using explicit_fires[where P = names_rev_reads and g = s_explicit_rev, OF _ _ e3]
    by blast
  have 6: "\<forall>inp s. names_single_reads inp \<longrightarrow> s_explicit_single (visit inp s) = Some (node_name inp)"
    by (simp add: visit_explicit_single)
  have 7: "\<forall>inp s. names_fwd_reads inp \<longrightarrow> s_explicit_fwd (visit inp s) = Some (node_name inp)"
    by (simp add: visit_explicit_fwd)
  have 8: "\<forall>inp s. names_rev_reads inp \<longrightarrow> s_explicit_rev (visit inp s) = Some (node_name inp)"
    by (simp add: visit_explicit_rev)
  have 9: "\<forall>inp s. \<not> accepts_file inp \<longrightarrow>
      s_left (visit inp s) = s_left s \<and> s_right (visit inp s) = s_right s \<and>
      s_single (visit inp s) = s_single s"
    by (simp add: visit_left visit_right visit_single left_match_def right_match_def
        single_match_def)
  from 1 2 3 4 5 6 7 8 9 show ?thesis by blast
qed

theorem walk_visits_every_reachable_node_witness:
  "reachable container_example fwd_section \<and> names_fwd_reads fwd_section \<and>
   \<not> accepts_file fwd_section \<and>
   s_explicit_fwd (find_input_slots_for_reads container_example) = Some ''fwd_reads_section'' \<and>
   s_left (visit fwd_section no_slots) = None"
proof -
  have r: "reachable container_example fwd_section"
  proof -
    have "fwd_section \<in> set (preorder container_example)"
      by (simp add: container_example_def fwd_section_def)
    then show ?thesis by (simp add: preorder_reachable)
  qed
  have n: "names_fwd_reads fwd_section" by code_simp
  have a: "\<not> accepts_file fwd_section" by code_simp
  have v: "s_explicit_fwd (find_input_slots_for_reads container_example) = Some ''fwd_reads_section''"
    by code_simp
  have "s_left (visit fwd_section no_slots) = s_left no_slots"
    using walk_visits_every_reachable_node [of container_example] a by blast
  then have l: "s_left (visit fwd_section no_slots) = None" by (simp add: no_slots_def)
  from r n a v l show ?thesis by blast
qed

section \<open>Properties of the polling loops\<close>

lemma wait_loop_step:
  "\<not> all_finished (shown v i) \<Longrightarrow> \<not> late v timeout i \<Longrightarrow>
   wait_loop v timeout i = wait_loop v timeout (Suc i)"
  by (subst wait_loop.simps) (simp add: late_def)

lemma wait_loop_finished:
  "all_finished (shown v i) \<Longrightarrow> wait_loop v timeout i = Some (Inr (shown v i))"
  by (subst wait_loop.simps) simp

lemma wait_loop_late:
  "\<not> all_finished (shown v i) \<Longrightarrow> late v timeout i \<Longrightarrow>
   wait_loop v timeout i = Some (Inl TimeoutError)"
  by (subst wait_loop.simps) (simp add: late_def)

lemma wait_loop_skip:
  "(\<forall>j<n. \<not> all_finished (shown v (i + j)) \<and> \<not> late v timeout (i + j)) \<Longrightarrow>
   wait_loop v timeout i = wait_loop v timeout (i + n)"
proof (induction n)
  case 0
  then show ?case by simp
next
  case (Suc n)
  then have "wait_loop v timeout i = wait_loop v timeout (i + n)" by simp
  also have "\<dots> = wait_loop v timeout (Suc (i + n))"
    using Suc.prems by (intro wait_loop_step) auto
  finally show ?case by simp
qed

lemma wait_loop_Some:
  assumes "wait_loop v timeout i = Some r"
  shows "\<exists>n. (\<forall>j<n. \<not> all_finished (shown v (i + j)) \<and> \<not> late v timeout (i + j)) \<and>
       ((all_finished (shown v (i + n)) \<and> r = Inr (shown v (i + n))) \<or>
        (\<not> all_finished (shown v (i + n)) \<and> late v timeout (i + n) \<and> r = Inl TimeoutError))"
proof (rule wait_loop.raw_induct[where P = "\<lambda>v timeout i r.
     \<exists>n. (\<forall>j<n. \<not> all_finished (shown v (i + j)) \<and> \<not> late v timeout (i + j)) \<and>
       ((all_finished (shown v (i + n)) \<and> r = Inr (shown v (i + n))) \<or>
        (\<not> all_finished (shown v (i + n)) \<and> late v timeout (i + n) \<and> r = Inl TimeoutError))",
     OF _ assms])
  fix wl :: "view \<Rightarrow> int \<Rightarrow> nat \<Rightarrow> (exn + dataset list) option"
  fix v timeout i r
  assume IH: "\<And>v timeout i r. wl v timeout i = Some r \<Longrightarrow>
     \<exists>n. (\<forall>j<n. \<not> all_finished (shown v (i + j)) \<and> \<not> late v timeout (i + j)) \<and>
       ((all_finished (shown v (i + n)) \<and> r = Inr (shown v (i + n))) \<or>
        (\<not> all_finished (shown v (i + n)) \<and> late v timeout (i + n) \<and> r = Inl TimeoutError))"
  assume body: "(let hist = shown v i in
      if all_finished hist then Some (Inr hist)
      else if clock v i - started v > real_of_int timeout then Some (Inl TimeoutError)
      else wl v timeout (Suc i)) = Some r"
  show "\<exists>n. (\<forall>j<n. \<not> all_finished (shown v (i + j)) \<and> \<not> late v timeout (i + j)) \<and>
       ((all_finished (shown v (i + n)) \<and> r = Inr (shown v (i + n))) \<or>
        (\<not> all_finished (shown v (i + n)) \<and> late v timeout (i + n) \<and> r = Inl TimeoutError))"
  proof (cases "all_finished (shown v i)")
    case True
    with body have "r = Inr (shown v i)" by (simp add: Let_def)
    with True show ?thesis by (intro exI[of _ 0]) simp
  next
    case nf: False
    show ?thesis
    proof (cases "late v timeout i")
      case True
      with nf body have "r = Inl TimeoutError" by (simp add: Let_def late_def)
      with nf True show ?thesis by (intro exI[of _ 0]) simp
    next
      case False
      with nf body have "wl v timeout (Suc i) = Some r" by (simp add: Let_def late_def)
      from IH[OF this] obtain n where
        n1: "\<forall>j<n. \<not> all_finished (shown v (Suc i + j)) \<and> \<not> late v timeout (Suc i + j)" and
        n2: "(all_finished (shown v (Suc i + n)) \<and> r = Inr (shown v (Suc i + n))) \<or>
             (\<not> all_finished (shown v (Suc i + n)) \<and> late v timeout (Suc i + n) \<and>
              r = Inl TimeoutError)"
        by blast
      have "\<forall>j<Suc n. \<not> all_finished (shown v (i + j)) \<and> \<not> late v timeout (i + j)"
      proof (intro allI impI)
        fix j assume j: "j < Suc n"
        show "\<not> all_finished (shown v (i + j)) \<and> \<not> late v timeout (i + j)"
        proof (cases j)
          case 0
          with nf False show ?thesis by simp
        next
          case (Suc k)
          with j have "k < n" by simp
          with n1 Suc show ?thesis by simp
        qed
      qed
      moreover from n2 have
        "(all_finished (shown v (i + Suc n)) \<and> r = Inr (shown v (i + Suc n))) \<or>
         (\<not> all_finished (shown v (i + Suc n)) \<and> late v timeout (i + Suc n) \<and>
          r = Inl TimeoutError)" by simp
      ultimately show ?thesis by (intro exI[of _ "Suc n"] conjI)
    qed
  qed
qed

lemma wait_result:
  assumes "wait_for_history_ready v poll_interval timeout = Some r"
  shows "\<exists>k. (\<forall>j<k. \<not> all_finished (shown v j) \<and> \<not> late v timeout j) \<and>
       ((all_finished (shown v k) \<and> r = Inr (shown v k)) \<or>
        (\<not> all_finished (shown v k) \<and> late v timeout k \<and> r = Inl TimeoutError))"
proof -
  from assms have "wait_loop v timeout 0 = Some r" by (simp add: wait_for_history_ready_def)
  from wait_loop_Some[OF this] show ?thesis by simp
qed

lemma wait_ok:
  assumes "all_finished (shown v k)"
    and "\<forall>j<k. \<not> all_finished (shown v j) \<and> \<not> late v timeout j"
  shows "wait_for_history_ready v poll_interval timeout = Some (Inr (shown v k))"
proof -
  have "wait_loop v timeout 0 = wait_loop v timeout (0 + k)"
    using assms(2) by (intro wait_loop_skip) simp
  with assms(1) show ?thesis by (simp add: wait_for_history_ready_def wait_loop_finished)
qed

lemma wait_times_out:
  assumes "\<not> all_finished (shown v k)" and "late v timeout k"
    and "\<forall>j<k. \<not> all_finished (shown v j) \<and> \<not> late v timeout j"
  shows "wait_for_history_ready v poll_interval timeout = Some (Inl TimeoutError)"
proof -
  have "wait_loop v timeout 0 = wait_loop v timeout (0 + k)"
    using assms(3) by (intro wait_loop_skip) simp
  with assms(1,2) show ?thesis by (simp add: wait_for_history_ready_def wait_loop_late)
qed

lemma wait_Inr_iff:
  "wait_for_history_ready v poll_interval timeout = Some (Inr hist) \<longleftrightarrow>
      (\<exists>k. all_finished (shown v k) \<and> hist = shown v k \<and>
           (\<forall>j<k. \<not> all_finished (shown v j) \<and> \<not> late v timeout j))"
proof
  assume "wait_for_history_ready v poll_interval timeout = Some (Inr hist)"
  from wait_result[OF this] obtain k where
    k1: "\<forall>j<k. \<not> all_finished (shown v j) \<and> \<not> late v timeout j" and
    k2: "all_finished (shown v k) \<and> hist = shown v k"
    by auto
  then show "\<exists>k. all_finished (shown v k) \<and> hist = shown v k \<and>
           (\<forall>j<k. \<not> all_finished (shown v j) \<and> \<not> late v timeout j)" by blast
next
  assume "\<exists>k. all_finished (shown v k) \<and> hist = shown v k \<and>
           (\<forall>j<k. \<not> all_finished (shown v j) \<and> \<not> late v timeout j)"
  then obtain k where "all_finished (shown v k)" "hist = shown v k"
    "\<forall>j<k. \<not> all_finished (shown v j) \<and> \<not> late v timeout j" by blast
  then show "wait_for_history_ready v poll_interval timeout = Some (Inr hist)"
    using wait_ok by simp
qed

lemma wait_Inl_iff:
  "wait_for_history_ready v poll_interval timeout = Some (Inl e) \<longleftrightarrow>
      e = TimeoutError \<and>
      (\<exists>k. \<not> all_finished (shown v k) \<and> late v timeout k \<and>
           (\<forall>j<k. \<not> all_finished (shown v j) \<and> \<not> late v timeout j))"
proof
  assume "wait_for_history_ready v poll_interval timeout = Some (Inl e)"
  from wait_result[OF this] obtain k where
    k1: "\<forall>j<k. \<not> all_finished (shown v j) \<and> \<not> late v timeout j" and
    k2: "\<not> all_finished (shown v k) \<and> late v timeout k \<and> e = TimeoutError"
    by auto
  then show "e = TimeoutError \<and>
      (\<exists>k. \<not> all_finished (shown v k) \<and> late v timeout k \<and>
           (\<forall>j<k. \<not> all_finished (shown v j) \<and> \<not> late v timeout j))" by blast
next
  assume "e = TimeoutError \<and>
      (\<exists>k. \<not> all_finished (shown v k) \<and> late v timeout k \<and>
           (\<forall>j<k. \<not> all_finished (shown v j) \<and> \<not> late v timeout j))"
  then obtain k where "e = TimeoutError" "\<not> all_finished (shown v k)" "late v timeout k"
    "\<forall>j<k. \<not> all_finished (shown v j) \<and> \<not> late v timeout j" by blast
  then show "wait_for_history_ready v poll_interval timeout = Some (Inl e)"
    using wait_times_out by simp
qed

lemma wait_None_iff:
  "wait_for_history_ready v poll_interval timeout = None \<longleftrightarrow>
      (\<forall>k. \<not> all_finished (shown v k) \<and> \<not> late v timeout k)"
proof
  assume none: "wait_for_history_ready v poll_interval timeout = None"
  show "\<forall>k. \<not> all_finished (shown v k) \<and> \<not> late v timeout k"
  proof (rule ccontr)
    assume "\<not> (\<forall>k. \<not> all_finished (shown v k) \<and> \<not> late v timeout k)"
    then have ex: "\<exists>k. all_finished (shown v k) \<or> late v timeout k" by blast
    define k where "k = (LEAST k. all_finished (shown v k) \<or> late v timeout k)"
    have k: "all_finished (shown v k) \<or> late v timeout k"
      unfolding k_def using ex by (rule LeastI_ex)
    have before: "\<forall>j<k. \<not> all_finished (shown v j) \<and> \<not> late v timeout j"
    proof (intro allI impI)
      fix j assume "j < k"
      then have "\<not> (all_finished (shown v j) \<or> late v timeout j)"
        unfolding k_def by (rule not_less_Least)
      then show "\<not> all_finished (shown v j) \<and> \<not> late v timeout j" by simp
    qed
    show False
    proof (cases "all_finished (shown v k)")
      case True
      from wait_ok[OF True before, of poll_interval] none show False by simp
    next
      case False
      with k have "late v timeout k" by simp
      from wait_times_out[OF False this before, of poll_interval] none show False by simp
    qed
  qed
next
  assume all: "\<forall>k. \<not> all_finished (shown v k) \<and> \<not> late v timeout k"
  show "wait_for_history_ready v poll_interval timeout = None"
  proof (cases "wait_for_history_ready v poll_interval timeout")
    case None
    then show ?thesis .
  next
    case (Some r)
    from wait_result[OF this] obtain k where
      "(all_finished (shown v k) \<and> r = Inr (shown v k)) \<or>
        (\<not> all_finished (shown v k) \<and> late v timeout k \<and> r = Inl TimeoutError)" by blast
    with all show ?thesis by blast
  qed
qed

lemma all_finished_iff:
  "all_finished hist \<longleftrightarrow>
      (\<forall>d\<in>set hist. ds_state d = Some ''ok'' \<or> ds_state d = Some ''error'' \<or>
                       ds_state d = Some ''discarded'')"
  by (auto simp: all_finished_def list_all_iff)

text \<open>
  C4. \<open>wait_for_history_ready\<close> returns a listing exactly when that listing is the first
  one in which every item's state is \<open>ok\<close>, \<open>error\<close> or \<open>discarded\<close> (an \<open>error\<close> or
  \<open>discarded\<close> item counts as finished) and no earlier round was past the deadline; it
  raises \<open>TimeoutError\<close> exactly when some round's listing is not finished while the time
  elapsed since loop entry exceeds the timeout, and no earlier round ended the loop; it
  runs forever exactly when no round is finished or late.
\<close>

theorem wait_returns_at_first_finished_poll:
  "(wait_for_history_ready v poll_interval timeout = Some (Inr hist) \<longleftrightarrow>
      (\<exists>k. all_finished (shown v k) \<and> hist = shown v k \<and>
           (\<forall>j<k. \<not> all_finished (shown v j) \<and> \<not> late v timeout j))) \<and>
   (wait_for_history_ready v poll_interval timeout = Some (Inl e) \<longleftrightarrow>
      e = TimeoutError \<and>
      (\<exists>k. \<not> all_finished (shown v k) \<and> late v timeout k \<and>
           (\<forall>j<k. \<not> all_finished (shown v j) \<and> \<not> late v timeout j))) \<and>
   (wait_for_history_ready v poll_interval timeout = None \<longleftrightarrow>
      (\<forall>k. \<not> all_finished (shown v k) \<and> \<not> late v timeout k)) \<and>
   (all_finished hist' \<longleftrightarrow>
      (\<forall>d\<in>set hist'. ds_state d = Some ''ok'' \<or> ds_state d = Some ''error'' \<or>
                       ds_state d = Some ''discarded''))"
  by (rule conjI[OF wait_Inr_iff conjI[OF wait_Inl_iff conjI[OF wait_None_iff all_finished_iff]]])

theorem wait_returns_at_first_finished_poll_witness:
  "\<not> all_finished (shown running_then_ok 0) \<and> all_finished (shown running_then_ok 1) \<and>
   wait_for_history_ready running_then_ok 3 900 = Some (Inr (shown running_then_ok 1)) \<and>
   late stuck_view 900 3 \<and>
   wait_for_history_ready stuck_view 3 900 = Some (Inl TimeoutError)"
proof -
  have n0: "\<not> all_finished (shown running_then_ok 0)"
    by (simp add: running_then_ok_def all_finished_def)
  have f1: "all_finished (shown running_then_ok 1)"
    by (simp add: running_then_ok_def all_finished_def)
  have l0: "\<not> late running_then_ok 900 0" by (simp add: late_def running_then_ok_def)
  have "\<exists>k. all_finished (shown running_then_ok k) \<and>
            shown running_then_ok 1 = shown running_then_ok k \<and>
            (\<forall>j<k. \<not> all_finished (shown running_then_ok j) \<and> \<not> late running_then_ok 900 j)"
    using n0 f1 l0 by (intro exI[of _ 1]) simp
  then have a: "wait_for_history_ready running_then_ok 3 900 = Some (Inr (shown running_then_ok 1))"
    using wait_returns_at_first_finished_poll
            [of running_then_ok 3 900 "shown running_then_ok 1"]
    by blast
  have nf: "\<not> all_finished (shown stuck_view j)" for j
    by (simp add: stuck_view_def all_finished_def)
  have l3: "late stuck_view 900 3" by (simp add: late_def stuck_view_def)
  have early: "\<not> late stuck_view 900 j" if "j < 3" for j
  proof -
    from that have "real j \<le> 2" by simp
    then show ?thesis by (simp add: late_def stuck_view_def)
  qed
  have "\<exists>k. \<not> all_finished (shown stuck_view k) \<and> late stuck_view 900 k \<and>
            (\<forall>j<k. \<not> all_finished (shown stuck_view j) \<and> \<not> late stuck_view 900 j)"
    using nf l3 early by (intro exI[of _ 3]) simp
  then have b: "wait_for_history_ready stuck_view 3 900 = Some (Inl TimeoutError)"
    using wait_returns_at_first_finished_poll [of stuck_view 3 900 _ TimeoutError]
    by blast
  from n0 f1 a l3 b show ?thesis by blast
qed

lemma scan_contents_find:
  "scan_contents exts nc contents = List.find (wanted exts nc) contents"
  by (induction contents) (auto simp: wanted_def)

lemma scan_contents_Some:
  "scan_contents exts nc contents = Some ds \<longleftrightarrow>
     (\<exists>i<length contents. wanted exts nc (contents ! i) \<and> ds = contents ! i \<and>
        (\<forall>i'<i. \<not> wanted exts nc (contents ! i')))"
  by (simp only: scan_contents_find find_Some_iff)

lemma scan_contents_None:
  "scan_contents exts nc contents = None \<longleftrightarrow> (\<forall>ds\<in>set contents. \<not> wanted exts nc ds)"
  by (auto simp: scan_contents_find find_None_iff)

lemma poll_loop_step:
  "scan_contents exts nc (shown v i) = None \<Longrightarrow> \<not> late v timeout i \<Longrightarrow>
   poll_loop v exts nc timeout i = poll_loop v exts nc timeout (Suc i)"
  by (subst poll_loop.simps) (simp add: late_def)

lemma poll_loop_found:
  "scan_contents exts nc (shown v i) = Some ds \<Longrightarrow>
   poll_loop v exts nc timeout i = Some (Inr ds)"
  by (subst poll_loop.simps) simp

lemma poll_loop_late:
  "scan_contents exts nc (shown v i) = None \<Longrightarrow> late v timeout i \<Longrightarrow>
   poll_loop v exts nc timeout i = Some (Inl TimeoutError)"
  by (subst poll_loop.simps) (simp add: late_def)

lemma poll_loop_skip:
  "(\<forall>j<n. scan_contents exts nc (shown v (i + j)) = None \<and> \<not> late v timeout (i + j)) \<Longrightarrow>
   poll_loop v exts nc timeout i = poll_loop v exts nc timeout (i + n)"
proof (induction n)
  case 0
  then show ?case by simp
next
  case (Suc n)
  then have "poll_loop v exts nc timeout i = poll_loop v exts nc timeout (i + n)" by simp
  also have "\<dots> = poll_loop v exts nc timeout (Suc (i + n))"
    using Suc.prems by (intro poll_loop_step) auto
  finally show ?case by simp
qed

lemma poll_loop_Some:
  assumes "poll_loop v exts nc timeout i = Some r"
  shows "\<exists>n. (\<forall>j<n. scan_contents exts nc (shown v (i + j)) = None \<and> \<not> late v timeout (i + j)) \<and>
       ((\<exists>ds. scan_contents exts nc (shown v (i + n)) = Some ds \<and> r = Inr ds) \<or>
        (scan_contents exts nc (shown v (i + n)) = None \<and> late v timeout (i + n) \<and>
         r = Inl TimeoutError))"
proof (rule poll_loop.raw_induct[where P = "\<lambda>v exts nc timeout i r.
     \<exists>n. (\<forall>j<n. scan_contents exts nc (shown v (i + j)) = None \<and> \<not> late v timeout (i + j)) \<and>
       ((\<exists>ds. scan_contents exts nc (shown v (i + n)) = Some ds \<and> r = Inr ds) \<or>
        (scan_contents exts nc (shown v (i + n)) = None \<and> late v timeout (i + n) \<and>
         r = Inl TimeoutError))",
     OF _ assms])
  fix pl :: "view \<Rightarrow> string list \<Rightarrow> string option \<Rightarrow> int \<Rightarrow> nat \<Rightarrow> (exn + dataset) option"
  fix v exts nc timeout i r
  assume IH: "\<And>v exts nc timeout i r. pl v exts nc timeout i = Some r \<Longrightarrow>
     \<exists>n. (\<forall>j<n. scan_contents exts nc (shown v (i + j)) = None \<and> \<not> late v timeout (i + j)) \<and>
       ((\<exists>ds. scan_contents exts nc (shown v (i + n)) = Some ds \<and> r = Inr ds) \<or>
        (scan_contents exts nc (shown v (i + n)) = None \<and> late v timeout (i + n) \<and>
         r = Inl TimeoutError))"
  assume body: "(case scan_contents exts nc (shown v i) of
        Some ds \<Rightarrow> Some (Inr ds)
      | None \<Rightarrow>
          if clock v i - started v > real_of_int timeout then Some (Inl TimeoutError)
          else pl v exts nc timeout (Suc i)) = Some r"
  show "\<exists>n. (\<forall>j<n. scan_contents exts nc (shown v (i + j)) = None \<and> \<not> late v timeout (i + j)) \<and>
       ((\<exists>ds. scan_contents exts nc (shown v (i + n)) = Some ds \<and> r = Inr ds) \<or>
        (scan_contents exts nc (shown v (i + n)) = None \<and> late v timeout (i + n) \<and>
         r = Inl TimeoutError))"
  proof (cases "scan_contents exts nc (shown v i)")
    case (Some ds)
    with body have "r = Inr ds" by simp
    with Some show ?thesis by (intro exI[of _ 0]) simp
  next
    case nf: None
    show ?thesis
    proof (cases "late v timeout i")
      case True
      with nf body have "r = Inl TimeoutError" by (simp add: late_def)
      with nf True show ?thesis by (intro exI[of _ 0]) simp
    next
      case False
      with nf body have "pl v exts nc timeout (Suc i) = Some r" by (simp add: late_def)
      from IH[OF this] obtain n where
        n1: "\<forall>j<n. scan_contents exts nc (shown v (Suc i + j)) = None \<and>
                   \<not> late v timeout (Suc i + j)" and
        n2: "(\<exists>ds. scan_contents exts nc (shown v (Suc i + n)) = Some ds \<and> r = Inr ds) \<or>
             (scan_contents exts nc (shown v (Suc i + n)) = None \<and> late v timeout (Suc i + n) \<and>
              r = Inl TimeoutError)"
        by blast
      have "\<forall>j<Suc n. scan_contents exts nc (shown v (i + j)) = None \<and> \<not> late v timeout (i + j)"
      proof (intro allI impI)
        fix j assume j: "j < Suc n"
        show "scan_contents exts nc (shown v (i + j)) = None \<and> \<not> late v timeout (i + j)"
        proof (cases j)
          case 0
          with nf False show ?thesis by simp
        next
          case (Suc k)
          with j have "k < n" by simp
          with n1 Suc show ?thesis by simp
        qed
      qed
      moreover from n2 have
        "(\<exists>ds. scan_contents exts nc (shown v (i + Suc n)) = Some ds \<and> r = Inr ds) \<or>
         (scan_contents exts nc (shown v (i + Suc n)) = None \<and> late v timeout (i + Suc n) \<and>
          r = Inl TimeoutError)" by simp
      ultimately show ?thesis by (intro exI[of _ "Suc n"] conjI)
    qed
  qed
qed

lemma poll_result:
  assumes "poll_history_for_dataset_with_ext v exts nc poll_interval timeout = Some r"
  shows "\<exists>k. (\<forall>j<k. scan_contents exts nc (shown v j) = None \<and> \<not> late v timeout j) \<and>
       ((\<exists>ds. scan_contents exts nc (shown v k) = Some ds \<and> r = Inr ds) \<or>
        (scan_contents exts nc (shown v k) = None \<and> late v timeout k \<and> r = Inl TimeoutError))"
proof -
  from assms have "poll_loop v exts nc timeout 0 = Some r"
    by (simp add: poll_history_for_dataset_with_ext_def)
  from poll_loop_Some[OF this] show ?thesis by simp
qed

lemma poll_ok:
  assumes "scan_contents exts nc (shown v k) = Some ds"
    and "\<forall>j<k. scan_contents exts nc (shown v j) = None \<and> \<not> late v timeout j"
  shows "poll_history_for_dataset_with_ext v exts nc poll_interval timeout = Some (Inr ds)"
proof -
  have "poll_loop v exts nc timeout 0 = poll_loop v exts nc timeout (0 + k)"
    using assms(2) by (intro poll_loop_skip) simp
  with assms(1) show ?thesis
    by (simp add: poll_history_for_dataset_with_ext_def poll_loop_found)
qed

lemma poll_times_out:
  assumes "scan_contents exts nc (shown v k) = None" and "late v timeout k"
    and "\<forall>j<k. scan_contents exts nc (shown v j) = None \<and> \<not> late v timeout j"
  shows "poll_history_for_dataset_with_ext v exts nc poll_interval timeout = Some (Inl TimeoutError)"
proof -
  have "poll_loop v exts nc timeout 0 = poll_loop v exts nc timeout (0 + k)"
    using assms(3) by (intro poll_loop_skip) simp
  with assms(1,2) show ?thesis
    by (simp add: poll_history_for_dataset_with_ext_def poll_loop_late)
qed

lemma poll_Inr_iff:
  "poll_history_for_dataset_with_ext v exts nc poll_interval timeout = Some (Inr ds) \<longleftrightarrow>
      (\<exists>k. scan_contents exts nc (shown v k) = Some ds \<and>
           (\<forall>j<k. scan_contents exts nc (shown v j) = None \<and> \<not> late v timeout j))"
proof
  assume "poll_history_for_dataset_with_ext v exts nc poll_interval timeout = Some (Inr ds)"
  from poll_result[OF this] obtain k where
    k1: "\<forall>j<k. scan_contents exts nc (shown v j) = None \<and> \<not> late v timeout j" and
    k2: "scan_contents exts nc (shown v k) = Some ds"
    by auto
  then show "\<exists>k. scan_contents exts nc (shown v k) = Some ds \<and>
           (\<forall>j<k. scan_contents exts nc (shown v j) = None \<and> \<not> late v timeout j)" by blast
next
  assume "\<exists>k. scan_contents exts nc (shown v k) = Some ds \<and>
           (\<forall>j<k. scan_contents exts nc (shown v j) = None \<and> \<not> late v timeout j)"
  then obtain k where "scan_contents exts nc (shown v k) = Some ds"
    "\<forall>j<k. scan_contents exts nc (shown v j) = None \<and> \<not> late v timeout j" by blast
  then show "poll_history_for_dataset_with_ext v exts nc poll_interval timeout = Some (Inr ds)"
    by (rule poll_ok)
qed

lemma poll_Inl_iff:
  "poll_history_for_dataset_with_ext v exts nc poll_interval timeout = Some (Inl e) \<longleftrightarrow>
      e = TimeoutError \<and>
      (\<exists>k. scan_contents exts nc (shown v k) = None \<and> late v timeout k \<and>
           (\<forall>j<k. scan_contents exts nc (shown v j) = None \<and> \<not> late v timeout j))"
proof
  assume "poll_history_for_dataset_with_ext v exts nc poll_interval timeout = Some (Inl e)"
  from poll_result[OF this] obtain k where
    k1: "\<forall>j<k. scan_contents exts nc (shown v j) = None \<and> \<not> late v timeout j" and
    k2: "scan_contents exts nc (shown v k) = None \<and> late v timeout k \<and> e = TimeoutError"
    by auto
  then show "e = TimeoutError \<and>
      (\<exists>k. scan_contents exts nc (shown v k) = None \<and> late v timeout k \<and>
           (\<forall>j<k. scan_contents exts nc (shown v j) = None \<and> \<not> late v timeout j))" by blast
next
  assume "e = TimeoutError \<and>
      (\<exists>k. scan_contents exts nc (shown v k) = None \<and> late v timeout k \<and>
           (\<forall>j<k. scan_contents exts nc (shown v j) = None \<and> \<not> late v timeout j))"
  then obtain k where "e = TimeoutError" "scan_contents exts nc (shown v k) = None"
    "late v timeout k"
    "\<forall>j<k. scan_contents exts nc (shown v j) = None \<and> \<not> late v timeout j" by blast
  then show "poll_history_for_dataset_with_ext v exts nc poll_interval timeout = Some (Inl e)"
    using poll_times_out by simp
qed

lemma wanted_no_filter:
  "wanted exts None ds \<longleftrightarrow>
     (or_empty (ds_file_ext ds) \<in> set exts \<or>
      (\<exists>e\<in>set exts. endswith (lower (ds_name ds)) (''.'' @ e)))"
  by (simp add: wanted_def ext_matches_def list_ex_iff)

lemma gz_facts:
  "\<not> wanted [''fasta''] None result_fasta_gz"
  "wanted default_exts None result_fasta_gz"
  "wanted [''fasta''] None result_fasta"
  by code_simp+

text \<open>
  C9, as stated, fails in its example: with accepted extensions \<open>fasta\<close> only, a dataset
  named \<open>result.FASTA.gz\<close> with an empty extension field is not matched (its lowercased
  name ends in \<open>.gz\<close>), and a history holding only that dataset times out.
\<close>

theorem fasta_gz_name_counterexample:
  "scan_contents [''fasta''] None [result_fasta_gz] = None \<and>
   poll_history_for_dataset_with_ext gz_view [''fasta''] None 5 900 = Some (Inl TimeoutError)"
proof -
  have s: "scan_contents [''fasta''] None [result_fasta_gz] = None" by code_simp
  have l: "late gz_view 900 0" by (simp add: late_def gz_view_def)
  have "scan_contents [''fasta''] None (shown gz_view 0) = None"
    using s by (simp add: gz_view_def)
  from poll_times_out[OF this l] s show ?thesis by simp
qed

text \<open>
  C9, amended. \<open>poll_history_for_dataset_with_ext\<close> returns, at the first round whose
  listing has one, the first listed item whose extension field is among the accepted
  extensions or whose lowercased display name ends with a dot followed by an accepted
  extension (and whose name contains the filter, when one is given); it raises
  \<open>TimeoutError\<close> when a round without such an item is past the deadline. With accepted
  extensions \<open>fasta\<close> only, \<open>result.FASTA.gz\<close> with an empty extension field is not
  matched; it is matched by the default extensions, which include \<open>fasta.gz\<close>, and
  \<open>result.FASTA\<close> is matched by \<open>fasta\<close>.
\<close>

theorem poll_returns_first_wanted:
  "(poll_history_for_dataset_with_ext v exts nc poll_interval timeout = Some (Inr ds) \<longleftrightarrow>
      (\<exists>k. (\<exists>i<length (shown v k). wanted exts nc (shown v k ! i) \<and> ds = shown v k ! i \<and>
                (\<forall>i'<i. \<not> wanted exts nc (shown v k ! i'))) \<and>
           (\<forall>j<k. (\<forall>d\<in>set (shown v j). \<not> wanted exts nc d) \<and> \<not> late v timeout j))) \<and>
   (poll_history_for_dataset_with_ext v exts nc poll_interval timeout = Some (Inl e) \<longleftrightarrow>
      e = TimeoutError \<and>
      (\<exists>k. (\<forall>d\<in>set (shown v k). \<not> wanted exts nc d) \<and> late v timeout k \<and>
           (\<forall>j<k. (\<forall>d\<in>set (shown v j). \<not> wanted exts nc d) \<and> \<not> late v timeout j))) \<and>
   (wanted exts None d \<longleftrightarrow>
      (or_empty (ds_file_ext d) \<in> set exts \<or>
       (\<exists>x\<in>set exts. endswith (lower (ds_name d)) (''.'' @ x)))) \<and>
   \<not> wanted [''fasta''] None result_fasta_gz \<and>
   wanted default_exts None result_fasta_gz \<and>
   wanted [''fasta''] None result_fasta"
proof -
  have A: "poll_history_for_dataset_with_ext v exts nc poll_interval timeout = Some (Inr ds) \<longleftrightarrow>
      (\<exists>k. (\<exists>i<length (shown v k). wanted exts nc (shown v k ! i) \<and> ds = shown v k ! i \<and>
                (\<forall>i'<i. \<not> wanted exts nc (shown v k ! i'))) \<and>
           (\<forall>j<k. (\<forall>d\<in>set (shown v j). \<not> wanted exts nc d) \<and> \<not> late v timeout j))"
    by (simp only: poll_Inr_iff scan_contents_Some scan_contents_None)
  have B: "poll_history_for_dataset_with_ext v exts nc poll_interval timeout = Some (Inl e) \<longleftrightarrow>
      e = TimeoutError \<and>
      (\<exists>k. (\<forall>d\<in>set (shown v k). \<not> wanted exts nc d) \<and> late v timeout k \<and>
           (\<forall>j<k. (\<forall>d\<in>set (shown v j). \<not> wanted exts nc d) \<and> \<not> late v timeout j))"
    by (simp only: poll_Inl_iff scan_contents_None)
  show ?thesis
    by (rule conjI[OF A conjI[OF B conjI[OF wanted_no_filter
          conjI[OF gz_facts(1) conjI[OF gz_facts(2) gz_facts(3)]]]]])
qed

theorem poll_returns_first_wanted_witness:
  "poll_history_for_dataset_with_ext fasta_view [''fasta''] None 5 900 = Some (Inr result_fasta) \<and>
   shown fasta_view 1 = [result_fasta_gz, result_fasta] \<and>
   shown fasta_view 0 = []"
proof -
  have s0: "shown fasta_view 0 = []" by (simp add: fasta_view_def)
  have s1: "shown fasta_view 1 = [result_fasta_gz, result_fasta]" by (simp add: fasta_view_def)
  have l0: "\<not> late fasta_view 900 0" by (simp add: late_def fasta_view_def)
  have w: "\<not> wanted [''fasta''] None result_fasta_gz" "wanted [''fasta''] None result_fasta"
    using poll_returns_first_wanted by blast+
  have inner: "\<exists>i<length (shown fasta_view 1).
         wanted [''fasta''] None (shown fasta_view 1 ! i) \<and> result_fasta = shown fasta_view 1 ! i \<and>
         (\<forall>i'<i. \<not> wanted [''fasta''] None (shown fasta_view 1 ! i'))"
  proof -
    have s1': "shown fasta_view (Suc 0) = [result_fasta_gz, result_fasta]"
      by (simp add: fasta_view_def)
    show ?thesis using w by (intro exI[of _ 1]) (simp add: s1')
  qed
  have before: "\<forall>j<1. (\<forall>d\<in>set (shown fasta_view j). \<not> wanted [''fasta''] None d) \<and>
                     \<not> late fasta_view 900 j"
    using s0 l0 by simp
  have "\<exists>k. (\<exists>i<length (shown fasta_view k).
         wanted [''fasta''] None (shown fasta_view k ! i) \<and> result_fasta = shown fasta_view k ! i \<and>
         (\<forall>i'<i. \<not> wanted [''fasta''] None (shown fasta_view k ! i'))) \<and>
       (\<forall>j<k. (\<forall>d\<in>set (shown fasta_view j). \<not> wanted [''fasta''] None d) \<and>
               \<not> late fasta_view 900 j)"
    using inner before by blast
  then have "poll_history_for_dataset_with_ext fasta_view [''fasta''] None 5 900
               = Some (Inr result_fasta)"
    using poll_returns_first_wanted [of fasta_view "[''fasta'']" None 5 900 result_fasta]
    by blast
  with s0 s1 show ?thesis by blast
qed

section \<open>Properties of strings and dictionaries\<close>

lemma startswith_append: "startswith s p \<longleftrightarrow> (\<exists>q. s = p @ q)"
  by (induction s p rule: startswith.induct) auto

lemma str_in_iff: "str_in sub s \<longleftrightarrow> (\<exists>p q. s = p @ sub @ q)"
proof (induction s)
  case Nil
  then show ?case by simp
next
  case (Cons c cs)
  show ?case
  proof
    assume "str_in sub (c # cs)"
    then consider "startswith (c # cs) sub" | "str_in sub cs" by auto
    then show "\<exists>p q. c # cs = p @ sub @ q"
    proof cases
      case 1
      then obtain q where "c # cs = sub @ q" by (auto simp: startswith_append)
      then have "c # cs = [] @ sub @ q" by simp
      then show ?thesis by blast
    next
      case 2
      with Cons.IH obtain p q where "cs = p @ sub @ q" by blast
      then have "c # cs = (c # p) @ sub @ q" by simp
      then show ?thesis by blast
    qed
  next
    assume "\<exists>p q. c # cs = p @ sub @ q"
    then obtain p q where pq: "c # cs = p @ sub @ q" by blast
    show "str_in sub (c # cs)"
    proof (cases p)
      case Nil
      with pq have "startswith (c # cs) sub" by (auto simp: startswith_append)
      then show ?thesis by simp
    next
      case (Cons x xs)
      with pq have "cs = xs @ sub @ q" by simp
      with Cons.IH have "str_in sub cs" by blast
      then show ?thesis by simp
    qed
  qed
qed

lemma endswith_iff: "endswith s e \<longleftrightarrow> (\<exists>p. s = p @ e)"
proof -
  have "endswith s e \<longleftrightarrow> (\<exists>q. rev s = rev e @ q)"
    by (simp add: endswith_def startswith_append)
  also have "\<dots> \<longleftrightarrow> (\<exists>p. s = p @ e)"
  proof
    assume "\<exists>q. rev s = rev e @ q"
    then obtain q where "rev s = rev e @ q" by blast
    then have "rev (rev s) = rev (rev e @ q)" by simp
    then have "s = rev q @ e" by simp
    then show "\<exists>p. s = p @ e" by blast
  next
    assume "\<exists>p. s = p @ e"
    then obtain p where "s = p @ e" by blast
    then have "rev s = rev e @ rev p" by simp
    then show "\<exists>q. rev s = rev e @ q" by blast
  qed
  finally show ?thesis .
qed

lemma dict_get_set: "dict_get (dict_set k v d) k' = (if k' = k then Some v else dict_get d k')"
  by (induction d) (auto simp: dict_get_def)

lemma dict_get_Nil: "dict_get [] k = None"
  by (simp add: dict_get_def)

lemma dict_empty_iff: "d = [] \<longleftrightarrow> (\<forall>k. dict_get d k = None)"
proof (cases d)
  case Nil
  then show ?thesis by (simp add: dict_get_def)
next
  case (Cons e es)
  obtain k v where "e = (k, v)" by (cases e)
  with Cons have "dict_get d k = Some v" by (simp add: dict_get_def)
  with Cons show ?thesis by auto
qed

lemma dict_set_nonempty: "dict_set k v d \<noteq> []"
  by (cases d) (auto split: if_splits)

section \<open>Properties of tool selection\<close>

lemma scan_tools_find:
  "scan_tools kw tm = map_option fst (List.find (\<lambda>e. kw_hit kw (fst e) (snd e)) tm)"
  by (induction tm) auto

lemma scan_tools_None: "scan_tools kw tm = None \<longleftrightarrow> (\<forall>e\<in>set tm. \<not> kw_hit kw (fst e) (snd e))"
  by (induction kw tm rule: scan_tools.induct) auto

lemma scan_tools_Some:
  "scan_tools kw tm = Some tid \<longleftrightarrow>
     (\<exists>j<length tm. kw_hit kw (fst (tm ! j)) (snd (tm ! j)) \<and> tid = fst (tm ! j) \<and>
        (\<forall>j'<j. \<not> kw_hit kw (fst (tm ! j')) (snd (tm ! j'))))"
proof -
  let ?P = "\<lambda>e. kw_hit kw (fst e) (snd e)"
  have "scan_tools kw tm = Some tid \<longleftrightarrow> (\<exists>e. List.find ?P tm = Some e \<and> tid = fst e)"
    unfolding scan_tools_find by auto
  also have "\<dots> \<longleftrightarrow> (\<exists>e. (\<exists>j<length tm. ?P (tm ! j) \<and> e = tm ! j \<and> (\<forall>j'<j. \<not> ?P (tm ! j'))) \<and> tid = fst e)"
    by (simp only: find_Some_iff)
  also have "\<dots> \<longleftrightarrow> (\<exists>j<length tm. ?P (tm ! j) \<and> tid = fst (tm ! j) \<and> (\<forall>j'<j. \<not> ?P (tm ! j')))"
    by blast
  finally show ?thesis .
qed

lemma scan_keywords_None:
  "scan_keywords kws tm = None \<longleftrightarrow> (\<forall>kw\<in>set kws. scan_tools kw tm = None)"
  by (induction kws) (auto split: option.splits)

lemma scan_keywords_Some:
  "scan_keywords kws tm = Some tid \<longleftrightarrow>
     (\<exists>i<length kws. scan_tools (kws ! i) tm = Some tid \<and>
        (\<forall>i'<i. scan_tools (kws ! i') tm = None))"
proof (induction kws)
  case Nil
  then show ?case by simp
next
  case (Cons kw kws)
  show ?case
  proof (cases "scan_tools kw tm")
    case None
    have "scan_keywords (kw # kws) tm = Some tid \<longleftrightarrow> scan_keywords kws tm = Some tid"
      using None by simp
    also have "\<dots> \<longleftrightarrow> (\<exists>i<length kws. scan_tools (kws ! i) tm = Some tid \<and>
        (\<forall>i'<i. scan_tools (kws ! i') tm = None))" by (rule Cons.IH)
    also have "\<dots> \<longleftrightarrow> (\<exists>i<length (kw # kws). scan_tools ((kw # kws) ! i) tm = Some tid \<and>
        (\<forall>i'<i. scan_tools ((kw # kws) ! i') tm = None))" (is "?L \<longleftrightarrow> ?R")
    proof
      assume ?L
      then obtain i where i: "i < length kws" "scan_tools (kws ! i) tm = Some tid"
        "\<forall>i'<i. scan_tools (kws ! i') tm = None" by blast
      have "\<forall>i'<Suc i. scan_tools ((kw # kws) ! i') tm = None"
        using i(3) None by (auto simp: nth_Cons split: nat.splits)
      with i(1,2) show ?R by (intro exI[of _ "Suc i"]) simp
    next
      assume ?R
      then obtain i where i: "i < length (kw # kws)" "scan_tools ((kw # kws) ! i) tm = Some tid"
        "\<forall>i'<i. scan_tools ((kw # kws) ! i') tm = None" by blast
      from i(2) None obtain k where k: "i = Suc k" by (cases i) auto
      have "\<forall>i'<k. scan_tools (kws ! i') tm = None"
      proof (intro allI impI)
        fix i' assume "i' < k"
        then have "Suc i' < i" using k by simp
        with i(3) have "scan_tools ((kw # kws) ! Suc i') tm = None" by blast
        then show "scan_tools (kws ! i') tm = None" by simp
      qed
      with i(1,2) k show ?L by (intro exI[of _ k]) simp
    qed
    finally show ?thesis .
  next
    case (Some t)
    have "scan_keywords (kw # kws) tm = Some tid \<longleftrightarrow> t = tid" using Some by simp
    also have "\<dots> \<longleftrightarrow> (\<exists>i<length (kw # kws). scan_tools ((kw # kws) ! i) tm = Some tid \<and>
        (\<forall>i'<i. scan_tools ((kw # kws) ! i') tm = None))" (is "?L \<longleftrightarrow> ?R")
    proof
      assume ?L
      with Some show ?R by (intro exI[of _ 0]) simp
    next
      assume ?R
      then obtain i where i: "i < length (kw # kws)" "scan_tools ((kw # kws) ! i) tm = Some tid"
        "\<forall>i'<i. scan_tools ((kw # kws) ! i') tm = None" by blast
      have "i = 0"
      proof (rule ccontr)
        assume "i \<noteq> 0"
        then have "0 < i" by simp
        with i(3) have "scan_tools ((kw # kws) ! 0) tm = None" by blast
        with Some show False by simp
      qed
      with i(2) Some show ?L by simp
    qed
    finally show ?thesis .
  qed
qed

lemma find_tool_on_tool_map:
  "(find_tool_by_keywords tools kws = Some tid \<longleftrightarrow>
      (\<exists>i<length kws. \<exists>j<length (tool_map tools).
          kw_hit (kws ! i) (fst (tool_map tools ! j)) (snd (tool_map tools ! j)) \<and>
          tid = fst (tool_map tools ! j) \<and>
          (\<forall>j'<j. \<not> kw_hit (kws ! i) (fst (tool_map tools ! j')) (snd (tool_map tools ! j'))) \<and>
          (\<forall>i'<i. \<forall>e\<in>set (tool_map tools). \<not> kw_hit (kws ! i') (fst e) (snd e)))) \<and>
   (find_tool_by_keywords tools kws = None \<longleftrightarrow>
      (\<forall>kw\<in>set kws. \<forall>e\<in>set (tool_map tools). \<not> kw_hit kw (fst e) (snd e)))"
  unfolding find_tool_by_keywords_def scan_keywords_Some scan_keywords_None scan_tools_Some
    scan_tools_None
  by blast

lemma dict_set_fresh: "k \<notin> fst ` set d \<Longrightarrow> dict_set k v d = d @ [(k, v)]"
  by (induction d) auto

lemma tool_map_foldl:
  "distinct (map t_id tools) \<Longrightarrow> t_id ` set tools \<inter> fst ` set d = {} \<Longrightarrow>
   foldl (\<lambda>d t. dict_set (t_id t) (t_name t) d) d tools = d @ map (\<lambda>t. (t_id t, t_name t)) tools"
proof (induction tools arbitrary: d)
  case Nil
  then show ?case by simp
next
  case (Cons t ts)
  have fresh: "t_id t \<notin> fst ` set d" using Cons.prems(2) by auto
  have step: "dict_set (t_id t) (t_name t) d = d @ [(t_id t, t_name t)]"
    using fresh by (rule dict_set_fresh)
  have d1: "distinct (map t_id ts)" using Cons.prems(1) by simp
  have d2: "t_id ` set ts \<inter> fst ` set (d @ [(t_id t, t_name t)]) = {}"
    using Cons.prems by auto
  show ?case using Cons.IH[OF d1 d2] step by simp
qed

lemma tool_map_distinct:
  "distinct (map t_id tools) \<Longrightarrow> tool_map tools = map (\<lambda>t. (t_id t, t_name t)) tools"
  unfolding tool_map_def using tool_map_foldl[of tools "[]"] by simp

text \<open>
  On a catalog whose identifiers are pairwise distinct the dictionary is the catalog, and
  the two loops read as loops over the catalog.
\<close>

lemma find_tool_distinct:
  assumes "distinct (map t_id tools)"
  shows "(find_tool_by_keywords tools kws = Some tid \<longleftrightarrow>
            (\<exists>i<length kws. \<exists>j<length tools.
                tool_hit (kws ! i) (tools ! j) \<and> tid = t_id (tools ! j) \<and>
                (\<forall>j'<j. \<not> tool_hit (kws ! i) (tools ! j')) \<and>
                (\<forall>i'<i. \<forall>t\<in>set tools. \<not> tool_hit (kws ! i') t))) \<and>
         (find_tool_by_keywords tools kws = None \<longleftrightarrow>
            (\<forall>kw\<in>set kws. \<forall>t\<in>set tools. \<not> tool_hit kw t))"
proof -
  let ?tm = "map (\<lambda>t. (t_id t, t_name t)) tools"
  have tm: "tool_map tools = ?tm" using assms by (rule tool_map_distinct)
  have none: "scan_tools kw ?tm = None \<longleftrightarrow> (\<forall>t\<in>set tools. \<not> tool_hit kw t)" for kw
    by (simp add: scan_tools_None tool_hit_def)
  have some: "scan_tools kw ?tm = Some tid \<longleftrightarrow>
      (\<exists>j<length tools. tool_hit kw (tools ! j) \<and> tid = t_id (tools ! j) \<and>
         (\<forall>j'<j. \<not> tool_hit kw (tools ! j')))" for kw
    by (simp add: scan_tools_Some tool_hit_def cong: conj_cong)
  have A: "find_tool_by_keywords tools kws = Some tid \<longleftrightarrow>
            (\<exists>i<length kws. \<exists>j<length tools.
                tool_hit (kws ! i) (tools ! j) \<and> tid = t_id (tools ! j) \<and>
                (\<forall>j'<j. \<not> tool_hit (kws ! i) (tools ! j')) \<and>
                (\<forall>i'<i. \<forall>t\<in>set tools. \<not> tool_hit (kws ! i') t))"
    unfolding find_tool_by_keywords_def tm scan_keywords_Some some none by blast
  have B: "find_tool_by_keywords tools kws = None \<longleftrightarrow>
            (\<forall>kw\<in>set kws. \<forall>t\<in>set tools. \<not> tool_hit kw t)"
    unfolding find_tool_by_keywords_def tm scan_keywords_None none by blast
  from A B show ?thesis by blast
qed

lemma lower_char_upper:
  "map lower_char ''ABCDEFGHIJKLMNOPQRSTUVWXYZ'' = ''abcdefghijklmnopqrstuvwxyz''"
  by (simp add: lower_char_def)

lemma lower_char_other:
  "c \<notin> set ''ABCDEFGHIJKLMNOPQRSTUVWXYZ'' \<Longrightarrow> lower_char c = c"
proof -
  assume "c \<notin> set ''ABCDEFGHIJKLMNOPQRSTUVWXYZ''"
  then have "map_of (zip ''ABCDEFGHIJKLMNOPQRSTUVWXYZ'' ''abcdefghijklmnopqrstuvwxyz'') c = None"
    by (intro map_of_zip_is_None[THEN iffD2]) simp_all
  then show ?thesis by (simp only: lower_char_def option.case)
qed

lemma tool_hit_iff:
  "tool_hit kw t \<longleftrightarrow>
     (\<exists>p q. lower (t_id t) = p @ lower kw @ q) \<or>
     (\<exists>p q. lower (or_empty (t_name t)) = p @ lower kw @ q)"
  by (simp add: tool_hit_def kw_hit_def str_in_iff)

lemma tool_map_snoc:
  "tool_map (ts @ [t]) = dict_set (t_id t) (t_name t) (tool_map ts)"
  by (simp add: tool_map_def)

lemma dict_set_keys:
  "map fst (dict_set k v d) = (if k \<in> set (map fst d) then map fst d else map fst d @ [k])"
  by (induction d) (force split: if_splits)+

lemma tool_map_keys: "map fst (tool_map tools) = rev (remdups (rev (map t_id tools)))"
proof (induction tools rule: rev_induct)
  case Nil
  show ?case by (simp add: tool_map_def)
next
  case (snoc t ts)
  have s: "set (map fst (tool_map ts)) = t_id ` set ts"
    using snoc.IH by simp
  show ?case
    by (simp add: tool_map_snoc dict_set_keys snoc.IH s del: set_map)
qed

lemma tool_map_get:
  "dict_get (tool_map tools) k =
     map_option t_name (last_of (filter (\<lambda>t. t_id t = k) tools))"
proof -
  have "dict_get (foldl (\<lambda>d t. dict_set (t_id t) (t_name t) d) [] tools) k =
          (case last_of (filter (\<lambda>t. t_id t = k) tools) of
             None \<Rightarrow> dict_get [] k | Some t \<Rightarrow> Some (t_name t))"
    by (rule foldl_last_wins) (auto simp: dict_get_set)
  then show ?thesis
    by (simp add: tool_map_def dict_get_Nil split: option.splits)
qed

text \<open>
  C8, as stated, fails on a catalog that lists an identifier twice. The first keyword,
  \<open>trinity\<close>, hits the first catalog entry (identifier \<open>x\<close>, display name
  \<open>Trinity\<close>), yet the function returns \<open>y\<close>, which only the second keyword hits:
  the dictionary the code builds keeps for \<open>x\<close> the display name of its last entry.
\<close>

theorem repeated_identifier_counterexample:
  "tool_hit ([''trinity'', ''oases''] ! 0) (repeated_id_catalog ! 0) \<and>
   find_tool_by_keywords repeated_id_catalog [''trinity'', ''oases''] = Some ''y''"
  by code_simp

text \<open>
  C8, amended. On a catalog whose identifiers are pairwise distinct,
  \<open>find_tool_by_keywords\<close> returns the identifier of the first catalog entry, in catalog
  order, hit by the first keyword, in the caller's order, that hits any entry, and
  \<open>None\<close> exactly when no keyword hits any entry. On every catalog the same holds of the
  dictionary the code builds from it, which has one entry per identifier, in the order of
  the identifiers' first occurrences, with the display name of the identifier's last
  occurrence. A keyword hits an entry when, both lowercased, it occurs as a contiguous
  block in the identifier or in the display name (\<open>None\<close> read as the empty string);
  lowercasing maps \<open>A\<close> to \<open>Z\<close> onto \<open>a\<close> to \<open>z\<close> character by character and
  leaves every other character as it is.
\<close>

theorem find_tool_first_keyword_first_entry:
  "(distinct (map t_id tools) \<longrightarrow>
      (find_tool_by_keywords tools kws = Some tid \<longleftrightarrow>
         (\<exists>i<length kws. \<exists>j<length tools.
             tool_hit (kws ! i) (tools ! j) \<and> tid = t_id (tools ! j) \<and>
             (\<forall>j'<j. \<not> tool_hit (kws ! i) (tools ! j')) \<and>
             (\<forall>i'<i. \<forall>t\<in>set tools. \<not> tool_hit (kws ! i') t))) \<and>
      (find_tool_by_keywords tools kws = None \<longleftrightarrow>
         (\<forall>kw\<in>set kws. \<forall>t\<in>set tools. \<not> tool_hit kw t)) \<and>
      tool_map tools = map (\<lambda>t. (t_id t, t_name t)) tools) \<and>
   (find_tool_by_keywords tools kws = Some tid \<longleftrightarrow>
      (\<exists>i<length kws. \<exists>j<length (tool_map tools).
          kw_hit (kws ! i) (fst (tool_map tools ! j)) (snd (tool_map tools ! j)) \<and>
          tid = fst (tool_map tools ! j) \<and>
          (\<forall>j'<j. \<not> kw_hit (kws ! i) (fst (tool_map tools ! j')) (snd (tool_map tools ! j'))) \<and>
          (\<forall>i'<i. \<forall>e\<in>set (tool_map tools). \<not> kw_hit (kws ! i') (fst e) (snd e)))) \<and>
   (find_tool_by_keywords tools kws = None \<longleftrightarrow>
      (\<forall>kw\<in>set kws. \<forall>e\<in>set (tool_map tools). \<not> kw_hit kw (fst e) (snd e))) \<and>
   map fst (tool_map tools) = rev (remdups (rev (map t_id tools))) \<and>
   dict_get (tool_map tools) k = map_option t_name (last_of (filter (\<lambda>t. t_id t = k) tools)) \<and>
   (kw_hit kw (t_id t) (t_name t) \<longleftrightarrow> tool_hit kw t) \<and>
   (tool_hit kw t \<longleftrightarrow>
      (\<exists>p q. lower (t_id t) = p @ lower kw @ q) \<or>
      (\<exists>p q. lower (or_empty (t_name t)) = p @ lower kw @ q)) \<and>
   lower s = map lower_char s \<and>
   map lower_char ''ABCDEFGHIJKLMNOPQRSTUVWXYZ'' = ''abcdefghijklmnopqrstuvwxyz'' \<and>
   (c \<notin> set ''ABCDEFGHIJKLMNOPQRSTUVWXYZ'' \<longrightarrow> lower_char c = c)"
proof -
  have D: "distinct (map t_id tools) \<longrightarrow>
      (find_tool_by_keywords tools kws = Some tid \<longleftrightarrow>
         (\<exists>i<length kws. \<exists>j<length tools.
             tool_hit (kws ! i) (tools ! j) \<and> tid = t_id (tools ! j) \<and>
             (\<forall>j'<j. \<not> tool_hit (kws ! i) (tools ! j')) \<and>
             (\<forall>i'<i. \<forall>t\<in>set tools. \<not> tool_hit (kws ! i') t))) \<and>
      (find_tool_by_keywords tools kws = None \<longleftrightarrow>
         (\<forall>kw\<in>set kws. \<forall>t\<in>set tools. \<not> tool_hit kw t)) \<and>
      tool_map tools = map (\<lambda>t. (t_id t, t_name t)) tools"
    using find_tool_distinct[of tools kws tid] tool_map_distinct[of tools] by blast
  have G: "(find_tool_by_keywords tools kws = Some tid \<longleftrightarrow>
      (\<exists>i<length kws. \<exists>j<length (tool_map tools).
          kw_hit (kws ! i) (fst (tool_map tools ! j)) (snd (tool_map tools ! j)) \<and>
          tid = fst (tool_map tools ! j) \<and>
          (\<forall>j'<j. \<not> kw_hit (kws ! i) (fst (tool_map tools ! j')) (snd (tool_map tools ! j'))) \<and>
          (\<forall>i'<i. \<forall>e\<in>set (tool_map tools). \<not> kw_hit (kws ! i') (fst e) (snd e)))) \<and>
   (find_tool_by_keywords tools kws = None \<longleftrightarrow>
      (\<forall>kw\<in>set kws. \<forall>e\<in>set (tool_map tools). \<not> kw_hit kw (fst e) (snd e)))"
    by (rule find_tool_on_tool_map)
  have H: "kw_hit kw (t_id t) (t_name t) \<longleftrightarrow> tool_hit kw t" by (simp add: tool_hit_def)
  have L: "lower s = map lower_char s" by (simp add: lower_def)
  have O: "c \<notin> set ''ABCDEFGHIJKLMNOPQRSTUVWXYZ'' \<longrightarrow> lower_char c = c"
    using lower_char_other by blast
  show ?thesis
    by (rule conjI[OF D conjI[OF conjunct1[OF G] conjI[OF conjunct2[OF G] conjI[OF tool_map_keys
          conjI[OF tool_map_get conjI[OF H conjI[OF tool_hit_iff conjI[OF L
          conjI[OF lower_char_upper O]]]]]]]]])
qed

theorem find_tool_first_keyword_first_entry_witness:
  "distinct (map t_id mixed_case_catalog) \<and>
   find_tool_by_keywords mixed_case_catalog [''rnaSPAdes'', ''trinity'']
     = Some ''toolshed/spades/3.15'' \<and>
   tool_hit ''trinity'' (mixed_case_catalog ! 0) \<and>
   CHR ''r'' \<notin> set ''ABCDEFGHIJKLMNOPQRSTUVWXYZ'' \<and> lower_char CHR ''r'' = CHR ''r'' \<and>
   (\<exists>i<length [''rnaSPAdes'', ''trinity'']. \<exists>j<length mixed_case_catalog.
       tool_hit ([''rnaSPAdes'', ''trinity''] ! i) (mixed_case_catalog ! j) \<and>
       ''toolshed/spades/3.15'' = t_id (mixed_case_catalog ! j) \<and>
       (\<forall>j'<j. \<not> tool_hit ([''rnaSPAdes'', ''trinity''] ! i) (mixed_case_catalog ! j')) \<and>
       (\<forall>i'<i. \<forall>t\<in>set mixed_case_catalog. \<not> tool_hit ([''rnaSPAdes'', ''trinity''] ! i') t))"
proof -
  have d: "distinct (map t_id mixed_case_catalog)"
    by (simp add: mixed_case_catalog_def)
  have e: "find_tool_by_keywords mixed_case_catalog [''rnaSPAdes'', ''trinity'']
             = Some ''toolshed/spades/3.15''"
    by code_simp
  have h: "tool_hit ''trinity'' (mixed_case_catalog ! 0)" by code_simp
  have n: "CHR ''r'' \<notin> set ''ABCDEFGHIJKLMNOPQRSTUVWXYZ''" by simp
  have "CHR ''r'' \<notin> set ''ABCDEFGHIJKLMNOPQRSTUVWXYZ'' \<longrightarrow> lower_char CHR ''r'' = CHR ''r''"
    by (insert find_tool_first_keyword_first_entry
          [of mixed_case_catalog "[]" "[]" "[]" "[]" "mixed_case_catalog ! 0" "[]" "CHR ''r''"],
        elim conjE)
  with n have r: "lower_char CHR ''r'' = CHR ''r''" by (rule rev_mp)
  have "distinct (map t_id mixed_case_catalog) \<longrightarrow>
      (find_tool_by_keywords mixed_case_catalog [''rnaSPAdes'', ''trinity'']
         = Some ''toolshed/spades/3.15'' \<longleftrightarrow>
         (\<exists>i<length [''rnaSPAdes'', ''trinity'']. \<exists>j<length mixed_case_catalog.
             tool_hit ([''rnaSPAdes'', ''trinity''] ! i) (mixed_case_catalog ! j) \<and>
             ''toolshed/spades/3.15'' = t_id (mixed_case_catalog ! j) \<and>
             (\<forall>j'<j. \<not> tool_hit ([''rnaSPAdes'', ''trinity''] ! i) (mixed_case_catalog ! j')) \<and>
             (\<forall>i'<i. \<forall>t\<in>set mixed_case_catalog.
                 \<not> tool_hit ([''rnaSPAdes'', ''trinity''] ! i') t))) \<and>
      (find_tool_by_keywords mixed_case_catalog [''rnaSPAdes'', ''trinity''] = None \<longleftrightarrow>
         (\<forall>kw\<in>set [''rnaSPAdes'', ''trinity'']. \<forall>t\<in>set mixed_case_catalog. \<not> tool_hit kw t)) \<and>
      tool_map mixed_case_catalog = map (\<lambda>t. (t_id t, t_name t)) mixed_case_catalog"
    by (insert find_tool_first_keyword_first_entry
          [of mixed_case_catalog "[''rnaSPAdes'', ''trinity'']" "''toolshed/spades/3.15''"
              "[]" "[]" "mixed_case_catalog ! 0" "[]" "CHR ''r''"],
        elim conjE)
  with d e
  have "\<exists>i<length [''rnaSPAdes'', ''trinity'']. \<exists>j<length mixed_case_catalog.
       tool_hit ([''rnaSPAdes'', ''trinity''] ! i) (mixed_case_catalog ! j) \<and>
       ''toolshed/spades/3.15'' = t_id (mixed_case_catalog ! j) \<and>
       (\<forall>j'<j. \<not> tool_hit ([''rnaSPAdes'', ''trinity''] ! i) (mixed_case_catalog ! j')) \<and>
       (\<forall>i'<i. \<forall>t\<in>set mixed_case_catalog. \<not> tool_hit ([''rnaSPAdes'', ''trinity''] ! i') t)"
    by blast
  with d e h n r show ?thesis by blast
qed

section \<open>Properties of the orchestrator\<close>

lemma resolve_inner:
  "dict_get (foldl (\<lambda>d up. if P up then dict_set up v d else d) d uploaded) k =
     (if k \<in> set uploaded \<and> P k then Some v else dict_get d k)"
  by (induction uploaded arbitrary: d) (auto simp: dict_get_set)

lemma resolve_one_get:
  "dict_get (resolve_one uploaded ds d) k =
     (if k \<in> set uploaded \<and> resolves_in k ds then Some (ds_id ds) else dict_get d k)"
  by (simp add: resolve_one_def resolve_inner resolves_in_def)

lemma resolve_uploaded_get:
  "dict_get (resolve_uploaded uploaded contents) k =
     (if k \<in> set uploaded
      then map_option ds_id (last_of (filter (resolves_in k) contents))
      else None)"
proof -
  let ?P = "\<lambda>ds. k \<in> set uploaded \<and> resolves_in k ds"
  have "dict_get (foldl (\<lambda>d ds. resolve_one uploaded ds d) [] contents) k =
          (case last_of (filter ?P contents) of
             None \<Rightarrow> dict_get [] k | Some ds \<Rightarrow> Some (ds_id ds))"
    by (rule foldl_last_wins) (rule resolve_one_get)
  then show ?thesis
    by (cases "k \<in> set uploaded")
       (auto simp: resolve_uploaded_def dict_get_Nil last_of_Nil split: option.splits)
qed

lemma resolved_iff:
  "dict_get (resolve_uploaded uploaded contents) k \<noteq> None \<longleftrightarrow>
     k \<in> set uploaded \<and> (\<exists>ds\<in>set contents. resolves_in k ds)"
proof -
  have "last_of (filter (resolves_in k) contents) \<noteq> None \<longleftrightarrow>
          (\<exists>ds\<in>set contents. resolves_in k ds)"
    by (auto simp: last_of_None filter_empty_conv)
  then show ?thesis by (auto simp: resolve_uploaded_get)
qed

lemma settled_wait:
  "all_finished hist \<Longrightarrow> wait_for_history_ready (settled hist) i t = Some (Inr hist)"
  by (simp add: wait_for_history_ready_def wait_loop_finished settled_def)

lemma settled_poll:
  "scan_contents exts nc hist = Some ds \<Longrightarrow>
   poll_history_for_dataset_with_ext (settled hist) exts nc i t = Some (Inr ds)"
  by (simp add: poll_history_for_dataset_with_ext_def poll_loop_found settled_def)

text \<open>
  The resolution step. Each uploaded basename gets the identifier of the last listed
  dataset that is not deleted and whose display name contains the basename as a
  contiguous block, case-sensitively. The step itself stops, with the diagnostic
  \<open>UploadedNotFound\<close>, exactly when no uploaded basename resolves at all, and then the
  whole run stops right after the upload wait; otherwise it hands the dictionary on to
  the branches that build the mapping.
\<close>

lemma resolve_by_containment:
  "dict_get (resolve_uploaded uploaded contents) up =
     (if up \<in> set uploaded
      then map_option ds_id (last_of (filter (resolves_in up) contents))
      else None) \<and>
   (resolves_in up ds \<longleftrightarrow> \<not> ds_deleted ds \<and> (\<exists>p q. ds_name ds = p @ up @ q)) \<and>
   (resolve_step uploaded contents = Inl e \<longleftrightarrow>
      e = Exit UploadedNotFound \<and>
      (\<forall>u\<in>set uploaded. \<forall>d\<in>set contents. \<not> resolves_in u d)) \<and>
   (resolve_step uploaded contents = Inr name_to_dsid \<longleftrightarrow>
      name_to_dsid = resolve_uploaded uploaded contents \<and>
      (\<exists>u\<in>set uploaded. \<exists>d\<in>set contents. resolves_in u d)) \<and>
   (wait_for_history_ready (w_upload_view w) 3 (a_wait_timeout a div 4) = Some (Inr hist) \<and>
    (\<forall>u\<in>set (map basename (upload_paths a)). \<forall>d\<in>set (w_contents w). \<not> resolves_in u d)
    \<longrightarrow> main a w = (map Upload (upload_paths a) @ [WaitReady 3 (a_wait_timeout a div 4)],
                     Raised (Exit UploadedNotFound)))"
proof -
  have none: "resolve_uploaded uploaded contents = [] \<longleftrightarrow>
      (\<forall>u\<in>set uploaded. \<forall>d\<in>set contents. \<not> resolves_in u d)"
  proof -
    have "resolve_uploaded uploaded contents = [] \<longleftrightarrow>
            (\<forall>k. \<not> (dict_get (resolve_uploaded uploaded contents) k \<noteq> None))"
      using dict_empty_iff[of "resolve_uploaded uploaded contents"] by simp
    also have "\<dots> \<longleftrightarrow> (\<forall>u\<in>set uploaded. \<forall>d\<in>set contents. \<not> resolves_in u d)"
      unfolding resolved_iff by blast
    finally show ?thesis .
  qed
  have A: "dict_get (resolve_uploaded uploaded contents) up =
     (if up \<in> set uploaded
      then map_option ds_id (last_of (filter (resolves_in up) contents))
      else None)" by (rule resolve_uploaded_get)
  have B: "resolves_in up ds \<longleftrightarrow> \<not> ds_deleted ds \<and> (\<exists>p q. ds_name ds = p @ up @ q)"
    by (simp add: resolves_in_def str_in_iff)
  have C: "resolve_step uploaded contents = Inl e \<longleftrightarrow>
      e = Exit UploadedNotFound \<and>
      (\<forall>u\<in>set uploaded. \<forall>d\<in>set contents. \<not> resolves_in u d)"
    using none by (auto simp: resolve_step_def Let_def)
  have D: "resolve_step uploaded contents = Inr name_to_dsid \<longleftrightarrow>
      name_to_dsid = resolve_uploaded uploaded contents \<and>
      (\<exists>u\<in>set uploaded. \<exists>d\<in>set contents. resolves_in u d)"
    using none by (auto simp: resolve_step_def Let_def)
  have none': "resolve_uploaded us cs = [] \<longleftrightarrow> (\<forall>u\<in>set us. \<forall>d\<in>set cs. \<not> resolves_in u d)"
    for us cs
  proof -
    have "resolve_uploaded us cs = [] \<longleftrightarrow> (\<forall>k. \<not> (dict_get (resolve_uploaded us cs) k \<noteq> None))"
      using dict_empty_iff[of "resolve_uploaded us cs"] by simp
    also have "\<dots> \<longleftrightarrow> (\<forall>u\<in>set us. \<forall>d\<in>set cs. \<not> resolves_in u d)"
      unfolding resolved_iff by blast
    finally show ?thesis .
  qed
  have E: "wait_for_history_ready (w_upload_view w) 3 (a_wait_timeout a div 4) = Some (Inr hist) \<and>
    (\<forall>u\<in>set (map basename (upload_paths a)). \<forall>d\<in>set (w_contents w). \<not> resolves_in u d)
    \<longrightarrow> main a w = (map Upload (upload_paths a) @ [WaitReady 3 (a_wait_timeout a div 4)],
                     Raised (Exit UploadedNotFound))"
  proof (intro impI, elim conjE)
    assume w: "wait_for_history_ready (w_upload_view w) 3 (a_wait_timeout a div 4) = Some (Inr hist)"
    assume "\<forall>u\<in>set (map basename (upload_paths a)). \<forall>d\<in>set (w_contents w). \<not> resolves_in u d"
    then have "resolve_uploaded (map basename (upload_paths a)) (w_contents w) = []"
      by (simp only: none')
    then have "resolve_step (map basename (upload_paths a)) (w_contents w)
                 = Inl (Exit UploadedNotFound)"
      by (simp add: resolve_step_def)
    with w show "main a w = (map Upload (upload_paths a) @ [WaitReady 3 (a_wait_timeout a div 4)],
                     Raised (Exit UploadedNotFound))"
      by (simp add: main_def Let_def)
  qed
  show ?thesis by (rule conjI[OF A conjI[OF B conjI[OF C conjI[OF D E]]]])
qed

lemma resolve_by_containment_example:
  "''b.fastq'' \<in> set [''a.fastq'', ''b.fastq''] \<and> ok_b \<in> set [deleted_a, ok_b] \<and>
   resolves_in ''b.fastq'' ok_b \<and>
   resolve_step [''a.fastq'', ''b.fastq''] [deleted_a, ok_b]
     = Inr (resolve_uploaded [''a.fastq'', ''b.fastq''] [deleted_a, ok_b]) \<and>
   dict_get (resolve_uploaded [''a.fastq'', ''b.fastq''] [deleted_a, ok_b]) ''b.fastq'' = Some ''d2'' \<and>
   wait_for_history_ready (w_upload_view lost_world) 3 (a_wait_timeout single_args div 4)
     = Some (Inr [deleted_a]) \<and>
   main single_args lost_world
     = ([Upload ''run/a.fastq'', WaitReady 3 900], Raised (Exit UploadedNotFound))"
proof -
  have m: "''b.fastq'' \<in> set [''a.fastq'', ''b.fastq'']" "ok_b \<in> set [deleted_a, ok_b]" by simp_all
  have r: "resolves_in ''b.fastq'' ok_b" by code_simp
  have l: "map_option ds_id (last_of (filter (resolves_in ''b.fastq'') [deleted_a, ok_b])) = Some ''d2''"
    by code_simp
  have ex: "\<exists>u\<in>set [''a.fastq'', ''b.fastq'']. \<exists>d\<in>set [deleted_a, ok_b]. resolves_in u d"
    using m r by blast
  have s: "resolve_step [''a.fastq'', ''b.fastq''] [deleted_a, ok_b]
             = Inr (resolve_uploaded [''a.fastq'', ''b.fastq''] [deleted_a, ok_b])"
    using resolve_by_containment
            [of "[''a.fastq'', ''b.fastq'']" "[deleted_a, ok_b]" "''b.fastq''" ok_b _
                "resolve_uploaded [''a.fastq'', ''b.fastq''] [deleted_a, ok_b]"] ex
    by blast
  have g: "dict_get (resolve_uploaded [''a.fastq'', ''b.fastq''] [deleted_a, ok_b]) ''b.fastq''
             = Some ''d2''"
    using resolve_by_containment
            [of "[''a.fastq'', ''b.fastq'']" "[deleted_a, ok_b]" "''b.fastq''"] l m(1)
    by simp
  have f: "all_finished [deleted_a]" by code_simp
  have w: "wait_for_history_ready (w_upload_view lost_world) 3 (a_wait_timeout single_args div 4)
             = Some (Inr [deleted_a])"
    using settled_wait[OF f] by (simp add: lost_world_def)
  have u: "map basename (upload_paths single_args) = [''a.fastq'']"
    "upload_paths single_args = [''run/a.fastq'']" "a_wait_timeout single_args div 4 = 900"
    by code_simp+
  have nr: "\<not> resolves_in ''a.fastq'' deleted_a" by code_simp
  have no: "\<forall>u\<in>set (map basename (upload_paths single_args)).
              \<forall>d\<in>set (w_contents lost_world). \<not> resolves_in u d"
    using nr by (simp add: u(1) lost_world_def)
  have "main single_args lost_world =
          (map Upload (upload_paths single_args) @
             [WaitReady 3 (a_wait_timeout single_args div 4)], Raised (Exit UploadedNotFound))"
    using resolve_by_containment [of _ _ _ _ _ _ lost_world single_args "[deleted_a]"] w no
    by blast
  then have x: "main single_args lost_world
     = ([Upload ''run/a.fastq'', WaitReady 3 900], Raised (Exit UploadedNotFound))"
    by (simp add: u)
  from m r s g w x show ?thesis by blast
qed










text \<open>
  On the collection path the two identifiers are read by indexing the dictionary: a
  basename that is not in it raises \<open>KeyError\<close>, which nothing catches.
\<close>

lemma paired_collection_key_error:
  "build_tool_inputs paired_args [(''b.fastq'', ''d2'')] ''trinity/2.9'' paired_files_tool
       (\<lambda>desc. ''c1'')
     = Inl (KeyError ''a.fastq'')"
  by code_simp

lemma paired_files_label_alone:
  "build_tool_inputs paired_args both_resolved ''trinity/2.9''
     [Input (Some ''input'') None (Some ''paired files'') None (Some ''data_collection'') None]
     (\<lambda>desc. ''c1'') = Inl (Exit NoPairedSlots)"
  by code_simp

lemma rnaspades_never_empty: "rnaspades_inputs a n2d = Inr (m, cs) \<Longrightarrow> m \<noteq> []"
  by (auto simp: rnaspades_inputs_def Let_def split: if_splits)

lemma paired_never_empty: "paired_inputs a n2d rs cc = Inr (m, cs) \<Longrightarrow> m \<noteq> []"
  by (auto simp: paired_inputs_def Let_def dict_set_nonempty split: if_splits option.splits)

lemma single_never_empty: "single_inputs a n2d rs ti cc = Inr (m, cs) \<Longrightarrow> m \<noteq> []"
  by (auto simp: single_inputs_def Let_def dict_set_nonempty split: if_splits)

lemma build_never_empty:
  "build_tool_inputs a n2d tool_id tool_info cc = Inr (m, cs) \<Longrightarrow> m \<noteq> []"
  by (auto simp: build_tool_inputs_def Let_def split: if_splits
           dest: rnaspades_never_empty paired_never_empty single_never_empty)

text \<open>
  C7 at a single-end run on a tool whose schema has no input at all: every path of the
  mapping-building step declines, and the run stops with the diagnostic \<open>NoDataInput\<close>
  after the upload wait; the conversion branch is not entered.
\<close>

theorem fallback_not_entered:
  "build_tool_inputs single_args [(''a.fastq'', ''d1'')] ''trinity/2.9'' [] (\<lambda>desc. ''c1'')
     = Inl (Exit NoDataInput) \<and>
   main single_args bare_world
     = ([Upload ''run/a.fastq'', WaitReady 3 900], Raised (Exit NoDataInput))"
proof -
  have b: "build_tool_inputs single_args [(''a.fastq'', ''d1'')] ''trinity/2.9'' [] (\<lambda>desc. ''c1'')
     = Inl (Exit NoDataInput)" by code_simp
  have f: "all_finished [uploaded_a]" by code_simp
  have w: "wait_for_history_ready (w_upload_view bare_world) 3 (a_wait_timeout single_args div 4)
             = Some (Inr [uploaded_a])"
    using settled_wait[OF f] by (simp add: bare_world_def)
  have u: "upload_paths single_args = [''run/a.fastq'']" by code_simp
  have t: "a_wait_timeout single_args div 4 = 900" by code_simp
  have r: "resolve_step (map basename (upload_paths single_args)) (w_contents bare_world)
             = Inr [(''a.fastq'', ''d1'')]" by code_simp
  have c: "find_tool_by_keywords (w_catalog bare_world) candidates = Some ''trinity/2.9''"
    by code_simp
  have s: "w_show_tool bare_world ''trinity/2.9'' = []" "w_create_collection bare_world = (\<lambda>desc. ''c1'')"
    by (simp_all add: bare_world_def)
  have m: "main single_args bare_world
     = ([Upload ''run/a.fastq'', WaitReady 3 900], Raised (Exit NoDataInput))"
    unfolding main_def Let_def w r c by (simp add: falsy_def s b u t)
  from b m show ?thesis by blast
qed

text \<open>
  C1 at a paired run on rnaSPAdes in which only the second file resolved (the dataset of
  the first is deleted): the run reaches \<open>run_tool\<close> with a forward reference whose
  identifier is \<open>None\<close>, and goes on to the download.
\<close>

theorem unresolved_id_submitted:
  "main paired_args rnaspades_world =
     ([Upload ''run/a.fastq'', Upload ''run/b.fastq'', WaitReady 3 900,
       RunTool ''toolshed/rnaspades/4.0''
         [(''libraries_0|files_0|file_type|type'', Lit ''separate''),
          (''libraries_0|files_0|file_type|fwd_reads'', Ref ''hda'' None),
          (''libraries_0|files_0|file_type|rev_reads'', Ref ''hda'' (Some ''d2''))],
       WaitReady 10 3600,
       PollOutput default_exts None 5 1200,
       Download ''d3'' ''assembly.fasta''], Done)"
proof -
  have f: "all_finished [deleted_a, ok_b]" "all_finished [deleted_a, ok_b, assembled]" by code_simp+
  have w: "wait_for_history_ready (w_upload_view rnaspades_world) 3 (a_wait_timeout paired_args div 4)
             = Some (Inr [deleted_a, ok_b])"
    using settled_wait[OF f(1)] by (simp add: rnaspades_world_def)
  have w2: "wait_for_history_ready (w_settle_view rnaspades_world) 10 3600
             = Some (Inr [deleted_a, ok_b, assembled])"
    using settled_wait[OF f(2)] by (simp add: rnaspades_world_def)
  have sc: "scan_contents default_exts None [deleted_a, ok_b, assembled] = Some assembled"
    by code_simp
  have p: "poll_history_for_dataset_with_ext (w_output_view rnaspades_world) default_exts None 5 1200
             = Some (Inr assembled)"
    using settled_poll[OF sc] by (simp add: rnaspades_world_def)
  have u: "upload_paths paired_args = [''run/a.fastq'', ''run/b.fastq'']" by code_simp
  have t: "a_wait_timeout paired_args div 4 = 900" "a_wait_timeout paired_args = 3600"
    "a_out paired_args = ''assembly.fasta''" "ds_id assembled = ''d3''" by code_simp+
  have r: "resolve_step (map basename (upload_paths paired_args)) (w_contents rnaspades_world)
             = Inr [(''b.fastq'', ''d2'')]" by code_simp
  have c: "find_tool_by_keywords (w_catalog rnaspades_world) candidates
             = Some ''toolshed/rnaspades/4.0''"
    by code_simp
  have s: "w_show_tool rnaspades_world ''toolshed/rnaspades/4.0'' = []"
    "w_create_collection rnaspades_world = (\<lambda>desc. ''c1'')"
    by (simp_all add: rnaspades_world_def)
  have b: "build_tool_inputs paired_args [(''b.fastq'', ''d2'')] ''toolshed/rnaspades/4.0'' []
             (\<lambda>desc. ''c1'') =
           Inr ([(''libraries_0|files_0|file_type|type'', Lit ''separate''),
                 (''libraries_0|files_0|file_type|fwd_reads'', Ref ''hda'' None),
                 (''libraries_0|files_0|file_type|rev_reads'', Ref ''hda'' (Some ''d2''))], [])"
    by code_simp
  show ?thesis
    unfolding main_def Let_def w r c
    by (simp add: falsy_def s b u t launch_def assemble_def w2 p fetch_def Let_def)
qed

lemma truthy_has_id: "truthy x \<Longrightarrow> has_id (Ref src x)"
  by (cases x) auto

lemma resolved_has_id: "x \<noteq> None \<Longrightarrow> has_id (Ref src x)"
  by (cases x) auto

lemma single_end_resolved:
  assumes "\<not> truthy (a_fastq2 a)"
    and "resolve_step (map basename (upload_paths a)) contents = Inr name_to_dsid"
  shows "dict_get name_to_dsid (basename (a_fastq1 a)) \<noteq> None"
proof -
  have up: "map basename (upload_paths a) = [basename (a_fastq1 a)]"
    using assms(1) by (simp add: upload_paths_def)
  from assms(2) have n: "name_to_dsid = resolve_uploaded [basename (a_fastq1 a)] contents"
    and "name_to_dsid \<noteq> []"
    unfolding up by (auto simp: resolve_step_def Let_def split: if_splits)
  then obtain k where "dict_get name_to_dsid k \<noteq> None"
    using dict_empty_iff[of name_to_dsid] by blast
  then show ?thesis unfolding n resolved_iff by auto
qed

lemma rnaspades_refs:
  "rnaspades_inputs a n2d = Inr (m, cs) \<Longrightarrow> dict_get n2d (basename (a_fastq1 a)) \<noteq> None \<Longrightarrow>
   refs_resolved m"
  by (auto simp: rnaspades_inputs_def Let_def falsy_def refs_resolved_def truthy_has_id
           split: if_splits)

lemma paired_refs: "paired_inputs a n2d rs cc = Inr (m, cs) \<Longrightarrow> refs_resolved m"
  by (auto simp: paired_inputs_def Let_def falsy_def truthy_has_id refs_resolved_def
           split: if_splits option.splits)

lemma single_refs:
  "single_inputs a n2d rs ti cc = Inr (m, cs) \<Longrightarrow> dict_get n2d (basename (a_fastq1 a)) \<noteq> None \<Longrightarrow>
   refs_resolved m"
  by (auto simp: single_inputs_def Let_def resolved_has_id refs_resolved_def
           split: if_splits)

lemma refs_resolved_when_first_file_resolved:
  assumes "build_tool_inputs a n2d tool_id tool_info cc = Inr (m, cs)"
    and "dict_get n2d (basename (a_fastq1 a)) \<noteq> None"
  shows "refs_resolved m"
  using assms
  by (auto simp: build_tool_inputs_def Let_def split: if_splits
           dest: rnaspades_refs paired_refs single_refs)

lemma refs_resolved_off_the_special_paired_branch:
  assumes "resolve_step (map basename (upload_paths a)) contents = Inr n2d"
    and "build_tool_inputs a n2d tool_id tool_info cc = Inr (m, cs)"
    and "\<not> (str_in ''rnaspades'' (lower tool_id) \<and> truthy (a_fastq2 a))"
  shows "refs_resolved m"
proof (cases "truthy (a_fastq2 a)")
  case True
  with assms(3) have "\<not> str_in ''rnaspades'' (lower tool_id)" by simp
  with True assms(2) show ?thesis
    by (auto simp: build_tool_inputs_def Let_def dest: paired_refs)
next
  case False
  from single_end_resolved[OF False assms(1)] assms(2) show ?thesis
    by (rule refs_resolved_when_first_file_resolved[rotated])
qed

lemma conversion_branch:
  "launch a w n2d tool_id [] trace = convert a w n2d trace"
  "tool_inputs \<noteq> [] \<Longrightarrow> launch a w n2d tool_id tool_inputs trace = assemble a w tool_id tool_inputs trace"
  "conv_inputs dsid =
     [(''input_fastq'', Ref ''hda'' dsid), (''input_file'', Ref ''hda'' dsid),
      (''fastq'', Ref ''hda'' dsid), (''input'', Ref ''hda'' dsid),
      (''to_fasta'', Flag True), (''fasta_output'', Flag True),
      (''convert_to_fasta'', Flag True)]"
  "falsy (find_tool_by_keywords (w_catalog w) conv_candidates) \<Longrightarrow>
     convert a w n2d trace = (trace, Raised (Exit NoConversionTool))"
  by (simp_all add: launch_def conv_inputs_def convert_def)

lemma waits_of_append: "waits_of (xs @ ys) = waits_of xs @ waits_of ys"
  by (simp add: waits_of_def)

lemma waits_of_uploads: "waits_of (map Upload ps) = []"
  by (induction ps) (simp_all add: waits_of_def)

lemma waits_of_collections: "waits_of (map CreateCollection cs) = []"
  by (induction cs) (simp_all add: waits_of_def)

lemma assemble_waits:
  "waits_of (fst (assemble a w tool_id tool_inputs trace)) =
     waits_of trace @ WaitReady 10 (a_wait_timeout a) #
       (case wait_for_history_ready (w_settle_view w) 10 (a_wait_timeout a) of
          Some (Inr hist) \<Rightarrow> [PollOutput default_exts None 5 1200]
        | _ \<Rightarrow> [])"
  by (simp add: assemble_def Let_def fetch_def waits_of_def split: option.splits sum.splits)

lemma convert_waits:
  "waits_of (fst (convert a w n2d trace)) =
     waits_of trace @
       (if falsy (find_tool_by_keywords (w_catalog w) conv_candidates) then []
        else WaitReady 5 (a_wait_timeout a div 2) #
          (case wait_for_history_ready (w_settle_view w) 5 (a_wait_timeout a div 2) of
             Some (Inr hist) \<Rightarrow> [PollOutput default_exts None 5 900]
           | _ \<Rightarrow> []))"
  by (simp add: convert_def Let_def fetch_def waits_of_def split: option.splits sum.splits)

lemma assemble_done:
  "snd (assemble a w tool_id tool_inputs trace) = Done \<longleftrightarrow>
     (\<exists>hist ds. wait_for_history_ready (w_settle_view w) 10 (a_wait_timeout a) = Some (Inr hist) \<and>
        poll_history_for_dataset_with_ext (w_output_view w) default_exts None 5 1200
          = Some (Inr ds))"
  by (auto simp: assemble_def Let_def fetch_def split: option.splits sum.splits)

lemma convert_done:
  "snd (convert a w n2d trace) = Done \<longleftrightarrow>
     truthy (find_tool_by_keywords (w_catalog w) conv_candidates) \<and>
     (\<exists>hist ds. wait_for_history_ready (w_settle_view w) 5 (a_wait_timeout a div 2)
                  = Some (Inr hist) \<and>
        poll_history_for_dataset_with_ext (w_output_view w) default_exts None 5 900
          = Some (Inr ds))"
  by (auto simp: convert_def Let_def fetch_def falsy_def split: option.splits sum.splits)

lemma main_first_wait:
  "\<exists>rest. fst (main a w) =
      map Upload (upload_paths a) @ WaitReady 3 (a_wait_timeout a div 4) # rest"
proof -
  have l: "\<exists>rest. fst (launch a w n2d tid ti (pre @ x # mid)) = pre @ x # rest"
    for n2d tid ti pre x mid
    by (auto simp: launch_def convert_def assemble_def fetch_def Let_def
             split: option.splits sum.splits)
  show ?thesis
    unfolding main_def Let_def
    by (auto split: option.splits sum.splits prod.splits simp: l)
qed

lemma main_cases:
  "(\<exists>st. main a w =
           (map Upload (upload_paths a) @ [WaitReady 3 (a_wait_timeout a div 4)], st)) \<or>
   (\<exists>n2d tid ti cs.
      build_tool_inputs a n2d tid (w_show_tool w tid) (w_create_collection w) = Inr (ti, cs) \<and>
      main a w =
        launch a w n2d tid ti
          ((map Upload (upload_paths a) @ [WaitReady 3 (a_wait_timeout a div 4)]) @
           map CreateCollection cs))"
proof (cases "wait_for_history_ready (w_upload_view w) 3 (a_wait_timeout a div 4)")
  case None
  then show ?thesis by (simp add: main_def Let_def)
next
  case (Some r)
  show ?thesis
  proof (cases r)
    case (Inl e)
    with Some show ?thesis by (simp add: main_def Let_def)
  next
    case (Inr hist)
    show ?thesis
    proof (cases "resolve_step (map basename (upload_paths a)) (w_contents w)")
      case (Inl e)
      with Some Inr show ?thesis by (simp add: main_def Let_def)
    next
      case res: (Inr n2d)
      let ?tid = "find_tool_by_keywords (w_catalog w) candidates"
      show ?thesis
      proof (cases "falsy ?tid")
        case True
        with Some Inr res show ?thesis by (simp add: main_def Let_def)
      next
        case False
        show ?thesis
        proof (cases "build_tool_inputs a n2d (or_empty ?tid) (w_show_tool w (or_empty ?tid))
                        (w_create_collection w)")
          case (Inl e)
          with Some Inr res False show ?thesis by (simp add: main_def Let_def)
        next
          case b: (Inr p)
          obtain ti cs where p: "p = (ti, cs)" by (cases p)
          have "main a w =
                  launch a w n2d (or_empty ?tid) ti
                    ((map Upload (upload_paths a) @ [WaitReady 3 (a_wait_timeout a div 4)]) @
                     map CreateCollection cs)"
            using Some Inr res False b p by (simp add: main_def Let_def)
          with b p show ?thesis by blast
        qed
      qed
    qed
  qed
qed

lemma main_waits:
  "\<exists>rest. waits_of (fst (main a w)) = WaitReady 3 (a_wait_timeout a div 4) # rest \<and>
      (rest = [] \<or> rest = [WaitReady 10 (a_wait_timeout a)] \<or>
       rest = [WaitReady 10 (a_wait_timeout a), PollOutput default_exts None 5 1200])"
proof -
  let ?t0 = "map Upload (upload_paths a) @ [WaitReady 3 (a_wait_timeout a div 4)]"
  have w0: "waits_of (?t0 @ map CreateCollection cs) = [WaitReady 3 (a_wait_timeout a div 4)]" for cs
    by (simp add: waits_of_append waits_of_uploads waits_of_collections) (simp add: waits_of_def)
  have w0': "waits_of ?t0 = [WaitReady 3 (a_wait_timeout a div 4)]"
    using w0[of "[]"] by simp
  consider (stop) "fst (main a w) = ?t0"
    | (go) n2d tid ti cs where "build_tool_inputs a n2d tid (w_show_tool w tid) (w_create_collection w)
                                  = Inr (ti, cs)"
        "main a w = launch a w n2d tid ti (?t0 @ map CreateCollection cs)"
    using main_cases[of a w] by auto
  then show ?thesis
  proof cases
    case stop
    then show ?thesis using w0' by simp
  next
    case go
    from go(1) have "ti \<noteq> []" by (rule build_never_empty)
    then have "main a w = assemble a w tid ti (?t0 @ map CreateCollection cs)"
      using go(2) by (simp add: launch_def)
    then have "waits_of (fst (main a w)) =
        WaitReady 3 (a_wait_timeout a div 4) # WaitReady 10 (a_wait_timeout a) #
          (case wait_for_history_ready (w_settle_view w) 10 (a_wait_timeout a) of
             Some (Inr hist) \<Rightarrow> [PollOutput default_exts None 5 1200]
           | _ \<Rightarrow> [])"
      by (simp only: assemble_waits w0) simp
    then show ?thesis by (auto split: option.splits sum.splits)
  qed
qed

lemma fallback_unreachable:
  "(\<exists>st. main a w =
           (map Upload (upload_paths a) @ [WaitReady 3 (a_wait_timeout a div 4)], st)) \<or>
   (\<exists>tid ti cs. ti \<noteq> [] \<and>
      main a w =
        assemble a w tid ti
          ((map Upload (upload_paths a) @ [WaitReady 3 (a_wait_timeout a div 4)]) @
           map CreateCollection cs))"
proof -
  from main_cases[of a w] consider
    (stop) st where
      "main a w = (map Upload (upload_paths a) @ [WaitReady 3 (a_wait_timeout a div 4)], st)"
    | (go) n2d tid ti cs where
      "build_tool_inputs a n2d tid (w_show_tool w tid) (w_create_collection w) = Inr (ti, cs)"
      "main a w =
        launch a w n2d tid ti
          ((map Upload (upload_paths a) @ [WaitReady 3 (a_wait_timeout a div 4)]) @
           map CreateCollection cs)"
    by blast
  then show ?thesis
  proof cases
    case stop
    then show ?thesis by blast
  next
    case go
    from go(1) have ne: "ti \<noteq> []" by (rule build_never_empty)
    with go(2) have "main a w =
        assemble a w tid ti
          ((map Upload (upload_paths a) @ [WaitReady 3 (a_wait_timeout a div 4)]) @
           map CreateCollection cs)"
      by (simp add: launch_def)
    with ne show ?thesis by blast
  qed
qed

text \<open>
  A run in which an uploaded file did not resolve never reaches the tool run, with one
  exception: it stops with a diagnostic, or, on the collection path of a tool other than
  rnaSPAdes, with \<open>KeyError\<close>; the exception is a paired run on rnaSPAdes in which the
  first file is the one that did not resolve.
\<close>

lemma build_with_unresolved:
  assumes "truthy (a_fastq2 a)"
    and "b = basename (a_fastq1 a) \<or> b = basename (or_empty (a_fastq2 a))"
    and "dict_get n2d b = None"
  shows "(\<exists>d. build_tool_inputs a n2d tid ti cc = Inl (Exit d)) \<or>
         (\<exists>k. build_tool_inputs a n2d tid ti cc = Inl (KeyError k) \<and>
              \<not> str_in ''rnaspades'' (lower tid)) \<or>
         (str_in ''rnaspades'' (lower tid) \<and> b = basename (a_fastq1 a) \<and>
          truthy (dict_get n2d (basename (or_empty (a_fastq2 a)))))"
proof (cases "str_in ''rnaspades'' (lower tid)")
  case True
  show ?thesis
  proof (cases "falsy (dict_get n2d (basename (or_empty (a_fastq2 a))))")
    case f: True
    with True assms(1) have "build_tool_inputs a n2d tid ti cc = Inl (Exit NoDatasetIdFastq2)"
      by (simp add: build_tool_inputs_def rnaspades_inputs_def Let_def)
    then show ?thesis by blast
  next
    case False
    then have t: "truthy (dict_get n2d (basename (or_empty (a_fastq2 a))))"
      by (simp add: falsy_def)
    then have "dict_get n2d (basename (or_empty (a_fastq2 a))) \<noteq> None"
      by (cases "dict_get n2d (basename (or_empty (a_fastq2 a)))") auto
    with assms(2,3) have "b = basename (a_fastq1 a)" by auto
    with True t show ?thesis by blast
  qed
next
  case False
  have fl: "falsy (dict_get n2d (basename (a_fastq1 a))) \<or>
            falsy (dict_get n2d (basename (or_empty (a_fastq2 a))))"
    using assms(2,3) by (auto simp: falsy_def)
  have "(\<exists>d. paired_inputs a n2d rs cc = Inl (Exit d)) \<or>
        (\<exists>k. paired_inputs a n2d rs cc = Inl (KeyError k))" for rs
    using fl assms(2,3)
    by (auto simp: paired_inputs_def Let_def split: option.splits)
  with False assms(1) show ?thesis
    by (simp add: build_tool_inputs_def Let_def)
qed

lemma unresolved_upload_stops_run:
  assumes up: "wait_for_history_ready (w_upload_view w) 3 (a_wait_timeout a div 4)
                 = Some (Inr hist)"
    and b: "b \<in> set (map basename (upload_paths a))"
    and un: "dict_get (resolve_uploaded (map basename (upload_paths a)) (w_contents w)) b = None"
  shows "(\<exists>d. main a w =
            (map Upload (upload_paths a) @ [WaitReady 3 (a_wait_timeout a div 4)],
             Raised (Exit d))) \<or>
         (\<exists>k. main a w =
            (map Upload (upload_paths a) @ [WaitReady 3 (a_wait_timeout a div 4)],
             Raised (KeyError k)) \<and>
            \<not> str_in ''rnaspades''
                (lower (or_empty (find_tool_by_keywords (w_catalog w) candidates)))) \<or>
         (truthy (a_fastq2 a) \<and>
          str_in ''rnaspades''
            (lower (or_empty (find_tool_by_keywords (w_catalog w) candidates))) \<and>
          b = basename (a_fastq1 a) \<and>
          truthy (dict_get (resolve_uploaded (map basename (upload_paths a)) (w_contents w))
                    (basename (or_empty (a_fastq2 a)))))"
proof -
  let ?up = "map basename (upload_paths a)"
  let ?n2d = "resolve_uploaded ?up (w_contents w)"
  let ?tool = "find_tool_by_keywords (w_catalog w) candidates"
  let ?t0 = "map Upload (upload_paths a) @ [WaitReady 3 (a_wait_timeout a div 4)]"
  show ?thesis
  proof (cases "resolve_step ?up (w_contents w)")
    case (Inl e)
    then have "e = Exit UploadedNotFound"
      by (auto simp: resolve_step_def Let_def split: if_splits)
    with Inl up have "main a w = (?t0, Raised (Exit UploadedNotFound))"
      by (simp add: main_def Let_def)
    then show ?thesis by blast
  next
    case (Inr n2d)
    then have n: "n2d = ?n2d"
      by (auto simp: resolve_step_def Let_def split: if_splits)
    have p: "truthy (a_fastq2 a)"
    proof (rule ccontr)
      assume np: "\<not> truthy (a_fastq2 a)"
      from single_end_resolved[OF np Inr] have "dict_get n2d (basename (a_fastq1 a)) \<noteq> None" .
      moreover from np b have "b = basename (a_fastq1 a)" by (simp add: upload_paths_def)
      ultimately show False using un n by simp
    qed
    with b have b': "b = basename (a_fastq1 a) \<or> b = basename (or_empty (a_fastq2 a))"
      by (auto simp: upload_paths_def)
    show ?thesis
    proof (cases "falsy ?tool")
      case True
      with Inr up have "main a w = (?t0, Raised (Exit NoAssemblerTool))"
        by (simp add: main_def Let_def)
      then show ?thesis by blast
    next
      case False
      let ?b = "build_tool_inputs a ?n2d (or_empty ?tool) (w_show_tool w (or_empty ?tool))
                  (w_create_collection w)"
      have m: "?b = Inl e \<Longrightarrow> main a w = (?t0, Raised e)" for e
        using Inr up False n by (simp add: main_def Let_def)
      from build_with_unresolved[OF p b' un, of "or_empty ?tool"
             "w_show_tool w (or_empty ?tool)" "w_create_collection w"]
      show ?thesis using m p by blast
    qed
  qed
qed

text \<open>
  C5 at a paired run on rnaSPAdes in which the dataset of the first uploaded file is
  deleted: \<open>a.fastq\<close> does not resolve, the resolution step hands on a dictionary
  without it, and the run goes on to \<open>run_tool\<close> and to the download. With the same
  history and a tool other than rnaSPAdes, the run stops with the diagnostic
  \<open>NoDatasetIdsPaired\<close> right after the upload wait.
\<close>

theorem unresolved_upload_run_continues:
  "map basename (upload_paths paired_args) = [''a.fastq'', ''b.fastq''] \<and>
   dict_get (resolve_uploaded [''a.fastq'', ''b.fastq''] (w_contents rnaspades_world)) ''a.fastq''
     = None \<and>
   resolve_step [''a.fastq'', ''b.fastq''] (w_contents rnaspades_world)
     = Inr [(''b.fastq'', ''d2'')] \<and>
   fst (main paired_args rnaspades_world) ! 3 =
     RunTool ''toolshed/rnaspades/4.0''
       [(''libraries_0|files_0|file_type|type'', Lit ''separate''),
        (''libraries_0|files_0|file_type|fwd_reads'', Ref ''hda'' None),
        (''libraries_0|files_0|file_type|rev_reads'', Ref ''hda'' (Some ''d2''))] \<and>
   snd (main paired_args rnaspades_world) = Done \<and>
   w_contents trinity_world = w_contents rnaspades_world \<and>
   main paired_args trinity_world =
     ([Upload ''run/a.fastq'', Upload ''run/b.fastq'', WaitReady 3 900],
      Raised (Exit NoDatasetIdsPaired))"
proof -
  have f: "all_finished [deleted_a, ok_b]" "all_finished [deleted_a, ok_b, assembled]" by code_simp+
  have w: "wait_for_history_ready (w_upload_view rnaspades_world) 3 (a_wait_timeout paired_args div 4)
             = Some (Inr [deleted_a, ok_b])"
    using settled_wait[OF f(1)] by (simp add: rnaspades_world_def)
  have w': "wait_for_history_ready (w_upload_view trinity_world) 3 (a_wait_timeout paired_args div 4)
             = Some (Inr [deleted_a, ok_b])"
    using settled_wait[OF f(1)] by (simp add: trinity_world_def)
  have w2: "wait_for_history_ready (w_settle_view rnaspades_world) 10 3600
             = Some (Inr [deleted_a, ok_b, assembled])"
    using settled_wait[OF f(2)] by (simp add: rnaspades_world_def)
  have sc: "scan_contents default_exts None [deleted_a, ok_b, assembled] = Some assembled"
    by code_simp
  have p: "poll_history_for_dataset_with_ext (w_output_view rnaspades_world) default_exts None 5 1200
             = Some (Inr assembled)"
    using settled_poll[OF sc] by (simp add: rnaspades_world_def)
  have u: "upload_paths paired_args = [''run/a.fastq'', ''run/b.fastq'']" by code_simp
  have ub: "map basename (upload_paths paired_args) = [''a.fastq'', ''b.fastq'']" by code_simp
  have t: "a_wait_timeout paired_args div 4 = 900" "a_wait_timeout paired_args = 3600"
    "a_out paired_args = ''assembly.fasta''" "ds_id assembled = ''d3''" by code_simp+
  have g: "dict_get (resolve_uploaded [''a.fastq'', ''b.fastq''] (w_contents rnaspades_world))
             ''a.fastq'' = None" by code_simp
  have r: "resolve_step [''a.fastq'', ''b.fastq''] (w_contents rnaspades_world)
             = Inr [(''b.fastq'', ''d2'')]" by code_simp
  have r': "resolve_step [''a.fastq'', ''b.fastq''] (w_contents trinity_world)
             = Inr [(''b.fastq'', ''d2'')]" by code_simp
  have c: "find_tool_by_keywords (w_catalog rnaspades_world) candidates
             = Some ''toolshed/rnaspades/4.0''"
    by code_simp
  have c': "find_tool_by_keywords (w_catalog trinity_world) candidates = Some ''trinity/2.9''"
    by code_simp
  have s: "w_show_tool rnaspades_world ''toolshed/rnaspades/4.0'' = []"
    "w_create_collection rnaspades_world = (\<lambda>desc. ''c1'')"
    by (simp_all add: rnaspades_world_def)
  have s': "w_show_tool trinity_world ''trinity/2.9'' = direct_tool"
    "w_create_collection trinity_world = (\<lambda>desc. ''c1'')"
    by (simp_all add: trinity_world_def)
  have bd: "build_tool_inputs paired_args [(''b.fastq'', ''d2'')] ''toolshed/rnaspades/4.0'' []
             (\<lambda>desc. ''c1'') =
           Inr ([(''libraries_0|files_0|file_type|type'', Lit ''separate''),
                 (''libraries_0|files_0|file_type|fwd_reads'', Ref ''hda'' None),
                 (''libraries_0|files_0|file_type|rev_reads'', Ref ''hda'' (Some ''d2''))], [])"
    by code_simp
  have bd': "build_tool_inputs paired_args [(''b.fastq'', ''d2'')] ''trinity/2.9'' direct_tool
             (\<lambda>desc. ''c1'') = Inl (Exit NoDatasetIdsPaired)"
    by code_simp
  have m: "main paired_args rnaspades_world =
     ([Upload ''run/a.fastq'', Upload ''run/b.fastq'', WaitReady 3 900,
       RunTool ''toolshed/rnaspades/4.0''
         [(''libraries_0|files_0|file_type|type'', Lit ''separate''),
          (''libraries_0|files_0|file_type|fwd_reads'', Ref ''hda'' None),
          (''libraries_0|files_0|file_type|rev_reads'', Ref ''hda'' (Some ''d2''))],
       WaitReady 10 3600,
       PollOutput default_exts None 5 1200,
       Download ''d3'' ''assembly.fasta''], Done)"
    unfolding main_def Let_def w ub r c
    by (simp add: falsy_def s bd u t launch_def assemble_def w2 p fetch_def Let_def)
  have m': "main paired_args trinity_world =
     ([Upload ''run/a.fastq'', Upload ''run/b.fastq'', WaitReady 3 900],
      Raised (Exit NoDatasetIdsPaired))"
    unfolding main_def Let_def w' ub r' c'
    by (simp add: falsy_def s' bd' u t)
  have e: "w_contents trinity_world = w_contents rnaspades_world"
    by (simp add: trinity_world_def rnaspades_world_def)
  have i: "fst (main paired_args rnaspades_world) ! 3 =
     RunTool ''toolshed/rnaspades/4.0''
       [(''libraries_0|files_0|file_type|type'', Lit ''separate''),
        (''libraries_0|files_0|file_type|fwd_reads'', Ref ''hda'' None),
        (''libraries_0|files_0|file_type|rev_reads'', Ref ''hda'' (Some ''d2''))]"
    unfolding m by simp
  have d: "snd (main paired_args rnaspades_world) = Done" unfolding m by simp
  from ub g r i d e m' show ?thesis by blast
qed

lemma main_upload_wait:
  "(wait_for_history_ready (w_upload_view w) 3 (a_wait_timeout a div 4) = None \<longrightarrow>
      main a w = (map Upload (upload_paths a) @ [WaitReady 3 (a_wait_timeout a div 4)], Diverged)) \<and>
   (wait_for_history_ready (w_upload_view w) 3 (a_wait_timeout a div 4) = Some (Inl e) \<longrightarrow>
      main a w = (map Upload (upload_paths a) @ [WaitReady 3 (a_wait_timeout a div 4)], Raised e))"
  by (simp add: main_def Let_def)

lemma main_launches:
  "wait_for_history_ready (w_upload_view w) 3 (a_wait_timeout a div 4) = Some (Inr hist) \<and>
   resolve_step (map basename (upload_paths a)) (w_contents w) = Inr n2d \<and>
   find_tool_by_keywords (w_catalog w) candidates = Some tid \<and> tid \<noteq> [] \<and>
   build_tool_inputs a n2d tid (w_show_tool w tid) (w_create_collection w) = Inr (tool_inputs, cs) \<longrightarrow>
     tool_inputs \<noteq> [] \<and>
     main a w =
       launch a w n2d tid tool_inputs
         ((map Upload (upload_paths a) @ [WaitReady 3 (a_wait_timeout a div 4)]) @
          map CreateCollection cs)"
  by (auto simp: main_def Let_def falsy_def dest: build_never_empty)

lemma launch_assembler:
  "(tool_inputs \<noteq> [] \<and>
    wait_for_history_ready (w_settle_view w) 10 (a_wait_timeout a) = None \<longrightarrow>
      launch a w n2d tid tool_inputs tr =
        (tr @ [RunTool tid tool_inputs, WaitReady 10 (a_wait_timeout a)], Diverged)) \<and>
   (tool_inputs \<noteq> [] \<and>
    wait_for_history_ready (w_settle_view w) 10 (a_wait_timeout a) = Some (Inl e) \<longrightarrow>
      launch a w n2d tid tool_inputs tr =
        (tr @ [RunTool tid tool_inputs, WaitReady 10 (a_wait_timeout a)], Raised e)) \<and>
   (tool_inputs \<noteq> [] \<and>
    wait_for_history_ready (w_settle_view w) 10 (a_wait_timeout a) = Some (Inr h) \<and>
    poll_history_for_dataset_with_ext (w_output_view w) default_exts None 5 1200 = None \<longrightarrow>
      launch a w n2d tid tool_inputs tr =
        (tr @ [RunTool tid tool_inputs, WaitReady 10 (a_wait_timeout a),
               PollOutput default_exts None 5 1200], Diverged)) \<and>
   (tool_inputs \<noteq> [] \<and>
    wait_for_history_ready (w_settle_view w) 10 (a_wait_timeout a) = Some (Inr h) \<and>
    poll_history_for_dataset_with_ext (w_output_view w) default_exts None 5 1200
      = Some (Inl TimeoutError) \<longrightarrow>
      launch a w n2d tid tool_inputs tr =
        (tr @ [RunTool tid tool_inputs, WaitReady 10 (a_wait_timeout a),
               PollOutput default_exts None 5 1200], Raised (Exit OutputTimedOut))) \<and>
   (tool_inputs \<noteq> [] \<and>
    wait_for_history_ready (w_settle_view w) 10 (a_wait_timeout a) = Some (Inr h) \<and>
    poll_history_for_dataset_with_ext (w_output_view w) default_exts None 5 1200
      = Some (Inr ds) \<longrightarrow>
      launch a w n2d tid tool_inputs tr =
        (tr @ [RunTool tid tool_inputs, WaitReady 10 (a_wait_timeout a),
               PollOutput default_exts None 5 1200, Download (ds_id ds) (a_out a)], Done))"
  by (simp add: launch_def assemble_def Let_def fetch_def)

lemma launch_conversion:
  "(falsy (find_tool_by_keywords (w_catalog w) conv_candidates) \<longrightarrow>
      launch a w n2d tid [] tr = (tr, Raised (Exit NoConversionTool))) \<and>
   (find_tool_by_keywords (w_catalog w) conv_candidates = Some ct \<and> ct \<noteq> [] \<and>
    wait_for_history_ready (w_settle_view w) 5 (a_wait_timeout a div 2) = None \<longrightarrow>
      launch a w n2d tid [] tr =
        (tr @ [RunTool ct (conv_inputs (dict_get n2d (basename (a_fastq1 a)))),
               WaitReady 5 (a_wait_timeout a div 2)], Diverged)) \<and>
   (find_tool_by_keywords (w_catalog w) conv_candidates = Some ct \<and> ct \<noteq> [] \<and>
    wait_for_history_ready (w_settle_view w) 5 (a_wait_timeout a div 2) = Some (Inl e) \<longrightarrow>
      launch a w n2d tid [] tr =
        (tr @ [RunTool ct (conv_inputs (dict_get n2d (basename (a_fastq1 a)))),
               WaitReady 5 (a_wait_timeout a div 2)], Raised e)) \<and>
   (find_tool_by_keywords (w_catalog w) conv_candidates = Some ct \<and> ct \<noteq> [] \<and>
    wait_for_history_ready (w_settle_view w) 5 (a_wait_timeout a div 2) = Some (Inr h) \<and>
    poll_history_for_dataset_with_ext (w_output_view w) default_exts None 5 900 = None \<longrightarrow>
      launch a w n2d tid [] tr =
        (tr @ [RunTool ct (conv_inputs (dict_get n2d (basename (a_fastq1 a)))),
               WaitReady 5 (a_wait_timeout a div 2),
               PollOutput default_exts None 5 900], Diverged)) \<and>
   (find_tool_by_keywords (w_catalog w) conv_candidates = Some ct \<and> ct \<noteq> [] \<and>
    wait_for_history_ready (w_settle_view w) 5 (a_wait_timeout a div 2) = Some (Inr h) \<and>
    poll_history_for_dataset_with_ext (w_output_view w) default_exts None 5 900
      = Some (Inl e) \<longrightarrow>
      launch a w n2d tid [] tr =
        (tr @ [RunTool ct (conv_inputs (dict_get n2d (basename (a_fastq1 a)))),
               WaitReady 5 (a_wait_timeout a div 2),
               PollOutput default_exts None 5 900], Raised e)) \<and>
   (find_tool_by_keywords (w_catalog w) conv_candidates = Some ct \<and> ct \<noteq> [] \<and>
    wait_for_history_ready (w_settle_view w) 5 (a_wait_timeout a div 2) = Some (Inr h) \<and>
    poll_history_for_dataset_with_ext (w_output_view w) default_exts None 5 900
      = Some (Inr ds) \<longrightarrow>
      launch a w n2d tid [] tr =
        (tr @ [RunTool ct (conv_inputs (dict_get n2d (basename (a_fastq1 a)))),
               WaitReady 5 (a_wait_timeout a div 2),
               PollOutput default_exts None 5 900, Download (ds_id ds) (a_out a)], Done))"
  by (simp add: launch_def convert_def Let_def fetch_def falsy_def)

text \<open>
  C10. Whatever the value of \<open>--wait-timeout\<close>: \<open>main\<close> calls the upload wait with
  that value divided by 4 (floor division) and ends as that call ends when it does not
  return a listing; once a mapping is built it is not empty and \<open>main\<close> ends as
  \<open>launch\<close> does. With a mapping that is not empty \<open>launch\<close> runs the tool, calls the
  settle wait with the full value and then the output poll with 1200, and ends in the
  download exactly when both return. With an empty mapping, the branch
  \<open>if not tool_inputs\<close>, it runs the conversion tool, calls the settle wait with the
  value divided by 2 and then the output poll with 900.
\<close>

theorem wait_timeouts:
  "((wait_for_history_ready (w_upload_view w) 3 (a_wait_timeout a div 4) = None \<longrightarrow>
       main a w = (map Upload (upload_paths a) @ [WaitReady 3 (a_wait_timeout a div 4)], Diverged)) \<and>
    (wait_for_history_ready (w_upload_view w) 3 (a_wait_timeout a div 4) = Some (Inl e) \<longrightarrow>
       main a w = (map Upload (upload_paths a) @ [WaitReady 3 (a_wait_timeout a div 4)], Raised e))) \<and>
   (wait_for_history_ready (w_upload_view w) 3 (a_wait_timeout a div 4) = Some (Inr hist) \<and>
    resolve_step (map basename (upload_paths a)) (w_contents w) = Inr n2d \<and>
    find_tool_by_keywords (w_catalog w) candidates = Some tid \<and> tid \<noteq> [] \<and>
    build_tool_inputs a n2d tid (w_show_tool w tid) (w_create_collection w) = Inr (tool_inputs, cs) \<longrightarrow>
      tool_inputs \<noteq> [] \<and>
      main a w =
        launch a w n2d tid tool_inputs
          ((map Upload (upload_paths a) @ [WaitReady 3 (a_wait_timeout a div 4)]) @
           map CreateCollection cs)) \<and>
   ((tool_inputs \<noteq> [] \<and>
     wait_for_history_ready (w_settle_view w) 10 (a_wait_timeout a) = None \<longrightarrow>
       launch a w n2d tid tool_inputs tr =
         (tr @ [RunTool tid tool_inputs, WaitReady 10 (a_wait_timeout a)], Diverged)) \<and>
    (tool_inputs \<noteq> [] \<and>
     wait_for_history_ready (w_settle_view w) 10 (a_wait_timeout a) = Some (Inl e) \<longrightarrow>
       launch a w n2d tid tool_inputs tr =
         (tr @ [RunTool tid tool_inputs, WaitReady 10 (a_wait_timeout a)], Raised e)) \<and>
    (tool_inputs \<noteq> [] \<and>
     wait_for_history_ready (w_settle_view w) 10 (a_wait_timeout a) = Some (Inr h) \<and>
     poll_history_for_dataset_with_ext (w_output_view w) default_exts None 5 1200 = None \<longrightarrow>
       launch a w n2d tid tool_inputs tr =
         (tr @ [RunTool tid tool_inputs, WaitReady 10 (a_wait_timeout a),
                PollOutput default_exts None 5 1200], Diverged)) \<and>
    (tool_inputs \<noteq> [] \<and>
     wait_for_history_ready (w_settle_view w) 10 (a_wait_timeout a) = Some (Inr h) \<and>
     poll_history_for_dataset_with_ext (w_output_view w) default_exts None 5 1200
       = Some (Inl TimeoutError) \<longrightarrow>
       launch a w n2d tid tool_inputs tr =
         (tr @ [RunTool tid tool_inputs, WaitReady 10 (a_wait_timeout a),
                PollOutput default_exts None 5 1200], Raised (Exit OutputTimedOut))) \<and>
    (tool_inputs \<noteq> [] \<and>
     wait_for_history_ready (w_settle_view w) 10 (a_wait_timeout a) = Some (Inr h) \<and>
     poll_history_for_dataset_with_ext (w_output_view w) default_exts None 5 1200
       = Some (Inr ds) \<longrightarrow>
       launch a w n2d tid tool_inputs tr =
         (tr @ [RunTool tid tool_inputs, WaitReady 10 (a_wait_timeout a),
                PollOutput default_exts None 5 1200, Download (ds_id ds) (a_out a)], Done))) \<and>
   ((falsy (find_tool_by_keywords (w_catalog w) conv_candidates) \<longrightarrow>
       launch a w n2d tid [] tr = (tr, Raised (Exit NoConversionTool))) \<and>
    (find_tool_by_keywords (w_catalog w) conv_candidates = Some ct \<and> ct \<noteq> [] \<and>
     wait_for_history_ready (w_settle_view w) 5 (a_wait_timeout a div 2) = None \<longrightarrow>
       launch a w n2d tid [] tr =
         (tr @ [RunTool ct (conv_inputs (dict_get n2d (basename (a_fastq1 a)))),
                WaitReady 5 (a_wait_timeout a div 2)], Diverged)) \<and>
    (find_tool_by_keywords (w_catalog w) conv_candidates = Some ct \<and> ct \<noteq> [] \<and>
     wait_for_history_ready (w_settle_view w) 5 (a_wait_timeout a div 2) = Some (Inl e) \<longrightarrow>
       launch a w n2d tid [] tr =
         (tr @ [RunTool ct (conv_inputs (dict_get n2d (basename (a_fastq1 a)))),
                WaitReady 5 (a_wait_timeout a div 2)], Raised e)) \<and>
    (find_tool_by_keywords (w_catalog w) conv_candidates = Some ct \<and> ct \<noteq> [] \<and>
     wait_for_history_ready (w_settle_view w) 5 (a_wait_timeout a div 2) = Some (Inr h) \<and>
     poll_history_for_dataset_with_ext (w_output_view w) default_exts None 5 900 = None \<longrightarrow>
       launch a w n2d tid [] tr =
         (tr @ [RunTool ct (conv_inputs (dict_get n2d (basename (a_fastq1 a)))),
                WaitReady 5 (a_wait_timeout a div 2),
                PollOutput default_exts None 5 900], Diverged)) \<and>
    (find_tool_by_keywords (w_catalog w) conv_candidates = Some ct \<and> ct \<noteq> [] \<and>
     wait_for_history_ready (w_settle_view w) 5 (a_wait_timeout a div 2) = Some (Inr h) \<and>
     poll_history_for_dataset_with_ext (w_output_view w) default_exts None 5 900
       = Some (Inl e) \<longrightarrow>
       launch a w n2d tid [] tr =
         (tr @ [RunTool ct (conv_inputs (dict_get n2d (basename (a_fastq1 a)))),
                WaitReady 5 (a_wait_timeout a div 2),
                PollOutput default_exts None 5 900], Raised e)) \<and>
    (find_tool_by_keywords (w_catalog w) conv_candidates = Some ct \<and> ct \<noteq> [] \<and>
     wait_for_history_ready (w_settle_view w) 5 (a_wait_timeout a div 2) = Some (Inr h) \<and>
     poll_history_for_dataset_with_ext (w_output_view w) default_exts None 5 900
       = Some (Inr ds) \<longrightarrow>
       launch a w n2d tid [] tr =
         (tr @ [RunTool ct (conv_inputs (dict_get n2d (basename (a_fastq1 a)))),
                WaitReady 5 (a_wait_timeout a div 2),
                PollOutput default_exts None 5 900, Download (ds_id ds) (a_out a)], Done)))"
  by (rule conjI[OF main_upload_wait conjI[OF main_launches
        conjI[OF launch_assembler launch_conversion]]])

theorem wait_timeouts_witness:
  "wait_for_history_ready (w_upload_view fastq_world) 3 (a_wait_timeout single_args div 4)
     = Some (Inr [uploaded_a]) \<and>
   resolve_step (map basename (upload_paths single_args)) (w_contents fastq_world)
     = Inr [(''a.fastq'', ''d1'')] \<and>
   find_tool_by_keywords (w_catalog fastq_world) candidates = Some ''trinity/2.9'' \<and>
   build_tool_inputs single_args [(''a.fastq'', ''d1'')] ''trinity/2.9''
       (w_show_tool fastq_world ''trinity/2.9'') (w_create_collection fastq_world)
     = Inr ([(''input1'', Ref ''hda'' (Some ''d1''))], []) \<and>
   wait_for_history_ready (w_settle_view fastq_world) 10 (a_wait_timeout single_args)
     = Some (Inr [uploaded_a, assembled]) \<and>
   poll_history_for_dataset_with_ext (w_output_view fastq_world) default_exts None 5 1200
     = Some (Inr assembled) \<and>
   main single_args fastq_world =
     ([Upload ''run/a.fastq'', WaitReady 3 900,
       RunTool ''trinity/2.9'' [(''input1'', Ref ''hda'' (Some ''d1''))],
       WaitReady 10 3600, PollOutput default_exts None 5 1200,
       Download ''d3'' ''assembly.fasta''], Done) \<and>
   find_tool_by_keywords (w_catalog converter_world) conv_candidates = Some ''seqtk_seq'' \<and>
   wait_for_history_ready (w_settle_view converter_world) 5 (a_wait_timeout single_args div 2)
     = Some (Inr [uploaded_a, assembled]) \<and>
   poll_history_for_dataset_with_ext (w_output_view converter_world) default_exts None 5 900
     = Some (Inr assembled) \<and>
   launch single_args converter_world [(''a.fastq'', ''d1'')] ''trinity/2.9'' [] [] =
     ([RunTool ''seqtk_seq'' (conv_inputs (Some ''d1'')), WaitReady 5 1800,
       PollOutput default_exts None 5 900, Download ''d3'' ''assembly.fasta''], Done)"
proof -
  have f: "all_finished [uploaded_a]" "all_finished [uploaded_a, assembled]" by code_simp+
  have sc: "scan_contents default_exts None [uploaded_a, assembled] = Some assembled"
    by code_simp
  have up: "wait_for_history_ready (w_upload_view fastq_world) 3 (a_wait_timeout single_args div 4)
     = Some (Inr [uploaded_a])"
    using settled_wait[OF f(1)] by (simp add: fastq_world_def)
  have rs: "resolve_step (map basename (upload_paths single_args)) (w_contents fastq_world)
     = Inr [(''a.fastq'', ''d1'')]" by code_simp
  have tl: "find_tool_by_keywords (w_catalog fastq_world) candidates = Some ''trinity/2.9''"
    by code_simp
  have bd: "build_tool_inputs single_args [(''a.fastq'', ''d1'')] ''trinity/2.9''
       (w_show_tool fastq_world ''trinity/2.9'') (w_create_collection fastq_world)
     = Inr ([(''input1'', Ref ''hda'' (Some ''d1''))], [])" by code_simp
  have st: "wait_for_history_ready (w_settle_view fastq_world) 10 (a_wait_timeout single_args)
     = Some (Inr [uploaded_a, assembled])"
    using settled_wait[OF f(2)] by (simp add: fastq_world_def)
  have pl: "poll_history_for_dataset_with_ext (w_output_view fastq_world) default_exts None 5 1200
     = Some (Inr assembled)"
    using settled_poll[OF sc] by (simp add: fastq_world_def)
  have cv: "find_tool_by_keywords (w_catalog converter_world) conv_candidates = Some ''seqtk_seq''"
    by code_simp
  have st2: "wait_for_history_ready (w_settle_view converter_world) 5
               (a_wait_timeout single_args div 2) = Some (Inr [uploaded_a, assembled])"
    using settled_wait[OF f(2)] by (simp add: converter_world_def)
  have pl2: "poll_history_for_dataset_with_ext (w_output_view converter_world) default_exts None
               5 900 = Some (Inr assembled)"
    using settled_poll[OF sc] by (simp add: converter_world_def)
  have vals: "upload_paths single_args = [''run/a.fastq'']"
    "a_wait_timeout single_args div 4 = 900" "a_wait_timeout single_args = 3600"
    "a_wait_timeout single_args div 2 = 1800" "a_out single_args = ''assembly.fasta''"
    "ds_id assembled = ''d3''" "basename (a_fastq1 single_args) = ''a.fastq''"
    "dict_get [(''a.fastq'', ''d1'')] ''a.fastq'' = Some ''d1''"
    by code_simp+
  note T = wait_timeouts
    [where a = single_args and w = fastq_world and hist = "[uploaded_a]"
       and ?n2d.0 = "[(''a.fastq'', ''d1'')]" and tid = "''trinity/2.9''"
       and tool_inputs = "[(''input1'', Ref ''hda'' (Some ''d1''))]" and cs = "[]"
       and h = "[uploaded_a, assembled]" and ds = assembled and e = TimeoutError
       and ct = "''seqtk_seq''"
       and tr = "(map Upload (upload_paths single_args) @
                    [WaitReady 3 (a_wait_timeout single_args div 4)]) @ map CreateCollection []"]
  have m1: "main single_args fastq_world =
       launch single_args fastq_world [(''a.fastq'', ''d1'')] ''trinity/2.9''
         [(''input1'', Ref ''hda'' (Some ''d1''))]
         ((map Upload (upload_paths single_args) @
             [WaitReady 3 (a_wait_timeout single_args div 4)]) @ map CreateCollection [])"
    using T up rs tl bd by simp
  have m2: "launch single_args fastq_world [(''a.fastq'', ''d1'')] ''trinity/2.9''
         [(''input1'', Ref ''hda'' (Some ''d1''))]
         ((map Upload (upload_paths single_args) @
             [WaitReady 3 (a_wait_timeout single_args div 4)]) @ map CreateCollection []) =
       (((map Upload (upload_paths single_args) @
             [WaitReady 3 (a_wait_timeout single_args div 4)]) @ map CreateCollection []) @
         [RunTool ''trinity/2.9'' [(''input1'', Ref ''hda'' (Some ''d1''))],
          WaitReady 10 (a_wait_timeout single_args),
          PollOutput default_exts None 5 1200,
          Download (ds_id assembled) (a_out single_args)], Done)"
    using T st pl by simp
  have m: "main single_args fastq_world =
     ([Upload ''run/a.fastq'', WaitReady 3 900,
       RunTool ''trinity/2.9'' [(''input1'', Ref ''hda'' (Some ''d1''))],
       WaitReady 10 3600, PollOutput default_exts None 5 1200,
       Download ''d3'' ''assembly.fasta''], Done)"
    unfolding m1 m2 by (simp add: vals)
  note T2 = wait_timeouts
    [where a = single_args and w = converter_world and hist = "[uploaded_a]"
       and ?n2d.0 = "[(''a.fastq'', ''d1'')]" and tid = "''trinity/2.9''"
       and tool_inputs = "[(''input1'', Ref ''hda'' (Some ''d1''))]" and cs = "[]"
       and h = "[uploaded_a, assembled]" and ds = assembled and e = TimeoutError
       and ct = "''seqtk_seq''" and tr = "[]"]
  have c: "launch single_args converter_world [(''a.fastq'', ''d1'')] ''trinity/2.9'' [] [] =
     ([RunTool ''seqtk_seq'' (conv_inputs (Some ''d1'')), WaitReady 5 1800,
       PollOutput default_exts None 5 900, Download ''d3'' ''assembly.fasta''], Done)"
    using T2 cv st2 pl2 by (simp add: vals)
  from up rs tl bd st pl m cv st2 pl2 c show ?thesis by blast
qed

end
